theory Spec2Isabelle
  imports Complex_Main "HOL-Library.Option_ord"
begin

section \<open>Job records and the submission service\<close>

text \<open>
  The embedding follows \<^verbatim>\<open>backend/app/models.py\<close>,
  \<^verbatim>\<open>backend/app/services/submission_service.py\<close> and
  \<^verbatim>\<open>backend/app/workers/submission_worker.py\<close>.

  Python integers are \<^typ>\<open>int\<close>. A \<^verbatim>\<open>datetime\<close> is the number of microseconds since
  the epoch (its resolution), so \<^verbatim>\<open>timedelta(hours=1)\<close> is \<open>3600000000\<close>. Every service
  call reads \<^verbatim>\<open>datetime.utcnow()\<close>; the reading is the parameter \<open>now\<close> of the call.
  An \<^verbatim>\<open>Optional[str]\<close> is a \<^typ>\<open>string option\<close>, and Python's truth test on it
  (\<^verbatim>\<open>if error_message:\<close>) is \<open>truthy_str\<close>: both \<^verbatim>\<open>None\<close> and the empty string
  are false.
\<close>

datatype SubmissionStatus =
  PENDING | IN_PROGRESS | SUBMITTED | APPROVED | REJECTED | FAILED | REQUIRES_REVIEW

fun status_value :: "SubmissionStatus \<Rightarrow> string" where
  "status_value PENDING = ''pending''"
| "status_value IN_PROGRESS = ''in_progress''"
| "status_value SUBMITTED = ''submitted''"
| "status_value APPROVED = ''approved''"
| "status_value REJECTED = ''rejected''"
| "status_value FAILED = ''failed''"
| "status_value REQUIRES_REVIEW = ''requires_review''"

text \<open>Values stored in step logs: strings, integers and \<^verbatim>\<open>None\<close>.\<close>

datatype pyval = PyNone | PyStr string | PyInt int

type_synonym step_log = "(string \<times> pyval) list"

text \<open>One entry of \<^verbatim>\<open>submission_log\<close>: the worker's \<^verbatim>\<open>log_entry\<close> dictionary
  extended by \<^verbatim>\<open>record_attempt\<close> with \<^verbatim>\<open>timestamp\<close> and \<^verbatim>\<open>attempt\<close>.\<close>

record attempt_entry =
  entry_status :: string
  entry_logs :: "step_log list"
  entry_error :: "string option"
  entry_timestamp :: int
  entry_attempt :: int

subsection \<open>Schemas of the detection result\<close>

text \<open>\<^verbatim>\<open>backend/app/schemas.py\<close>. A Python \<^verbatim>\<open>float\<close> is a \<^typ>\<open>real\<close>; the only
  floating-point values the code itself writes are the literals \<open>0.0\<close> and \<open>0.5\<close>.\<close>

record FormField =
  name :: string
  field_type :: string
  label :: "string option"
  placeholder :: "string option"
  required :: bool
  selector :: string
  options :: "string list option"

record FormDetectionResult =
  url :: string
  form_found :: bool
  form_selector :: "string option"
  form_fields :: "FormField list"
  submit_button_selector :: "string option"
  result_screenshot_path :: "string option"
  confidence :: real

text \<open>The snapshot of the detected form that a run stores (\<^verbatim>\<open>result["detected_fields"]\<close>),
  and one value of the selector-keyed \<^verbatim>\<open>filled_fields\<close> dictionary.\<close>

record detected_snapshot =
  ds_fields :: "FormField list"
  ds_form_selector :: "string option"
  ds_submit_button :: "string option"
  ds_confidence :: real

record mapped_field =
  mf_field_name :: string
  mf_field_type :: string
  mf_value :: pyval

type_synonym field_mapping = "(string \<times> mapped_field) list"

subsection \<open>The job table\<close>

record DirectorySubmission =
  sub_id :: int
  saas_product_id :: int
  directory_id :: int
  status :: SubmissionStatus
  submitted_at :: "int option"
  approved_at :: "int option"
  listing_url :: "string option"
  attempt_count :: int
  max_attempts :: int
  last_attempt_at :: "int option"
  submission_log :: "attempt_entry list"
  error_message :: "string option"
  screenshot_path :: "string option"
  detected_fields :: "detected_snapshot option"
  filled_fields :: "field_mapping option"
  created_at :: int
  updated_at :: int

record ActivityLog =
  action :: string
  entity_type :: string
  entity_id :: int
  message :: string
  level :: string

text \<open>
  The session: the table of submissions, in storage order, and the activity log. The
  primary key \<open>sub_id\<close> identifies a row. The service and the worker share one session, and
  the ORM session hands out one mapped object per primary key, so the worker's variable
  \<^verbatim>\<open>submission\<close> and the object that \<^verbatim>\<open>record_attempt\<close> and \<^verbatim>\<open>update_status\<close> load by
  the same id are the same object: a read of \<^verbatim>\<open>submission.attempt_count\<close> is a read of the
  row in the current session state.
\<close>

record database =
  submissions :: "DirectorySubmission list"
  activity_logs :: "ActivityLog list"

definition truthy_str :: "string option \<Rightarrow> bool" where
  "truthy_str v = (case v of None \<Rightarrow> False | Some s \<Rightarrow> s \<noteq> [])"

definition get_by_id :: "database \<Rightarrow> int \<Rightarrow> DirectorySubmission option" where
  "get_by_id db submission_id = find (\<lambda>r. sub_id r = submission_id) (submissions db)"

text \<open>Attribute writes on the mapped object of row \<open>submission_id\<close>, flushed to the table.\<close>

definition flush_row ::
  "database \<Rightarrow> int \<Rightarrow> (DirectorySubmission \<Rightarrow> DirectorySubmission) \<Rightarrow> database" where
  "flush_row db submission_id f =
     db\<lparr>submissions := map (\<lambda>r. if sub_id r = submission_id then f r else r) (submissions db)\<rparr>"

definition log_activity :: "database \<Rightarrow> string \<Rightarrow> string \<Rightarrow> int \<Rightarrow> string \<Rightarrow> database" where
  "log_activity db act ety eid msg =
     db\<lparr>activity_logs := activity_logs db @
        [\<lparr>action = act, entity_type = ety, entity_id = eid, message = msg, level = ''info''\<rparr>]\<rparr>"

definition update_status ::
  "database \<Rightarrow> int \<Rightarrow> int \<Rightarrow> SubmissionStatus \<Rightarrow> string option \<Rightarrow> string option
     \<Rightarrow> string option \<Rightarrow> database" where
  "update_status db now submission_id st error_message_arg listing_url_arg screenshot_path_arg =
     (case get_by_id db submission_id of
        None \<Rightarrow> db
      | Some _ \<Rightarrow>
          log_activity
            (flush_row db submission_id (\<lambda>s. s
               \<lparr>status := st,
                updated_at := now,
                submitted_at := (if st = SUBMITTED then Some now else submitted_at s),
                approved_at := (if st \<noteq> SUBMITTED \<and> st = APPROVED then Some now else approved_at s),
                error_message :=
                  (if truthy_str error_message_arg then error_message_arg else error_message s),
                listing_url :=
                  (if truthy_str listing_url_arg then listing_url_arg else listing_url s),
                screenshot_path :=
                  (if truthy_str screenshot_path_arg then screenshot_path_arg
                   else screenshot_path s)\<rparr>))
            (''submission_'' @ status_value st) ''submission'' submission_id
            (''Submission status changed to '' @ status_value st))"

text \<open>The \<^verbatim>\<open>log_entry\<close> argument of \<^verbatim>\<open>record_attempt\<close>, as the worker builds it.\<close>

record log_entry =
  le_status :: string
  le_logs :: "step_log list"
  le_error :: "string option"

text \<open>
  \<^verbatim>\<open>record_attempt\<close>. The update of the row also sets \<open>updated_at\<close>, whose column has
  \<^verbatim>\<open>onupdate=datetime.utcnow\<close>. \<open>submission_log\<close> is a plain JSON column: the method
  appends to the list that the attribute holds and assigns that same list back, which
  the session does not see as a change, and the final \<^verbatim>\<open>refresh\<close> reloads the stored
  value. Only when the stored log is empty does \<^verbatim>\<open>submission.submission_log or []\<close>
  make a new list, and then the entry is stored.
\<close>

definition record_attempt ::
  "database \<Rightarrow> int \<Rightarrow> int \<Rightarrow> log_entry \<Rightarrow> detected_snapshot option \<Rightarrow> field_mapping option \<Rightarrow> database" where
  "record_attempt db now submission_id entry detected filled =
     (case get_by_id db submission_id of
        None \<Rightarrow> db
      | Some _ \<Rightarrow>
          flush_row db submission_id (\<lambda>s. s
            \<lparr>attempt_count := attempt_count s + 1,
             last_attempt_at := Some now,
             updated_at := now,
             submission_log :=
               (if submission_log s = [] then
                  [\<lparr>entry_status = le_status entry, entry_logs = le_logs entry,
                    entry_error = le_error entry, entry_timestamp = now,
                    entry_attempt = attempt_count s + 1\<rparr>]
                else submission_log s),
             detected_fields := (if detected \<noteq> None then detected else detected_fields s),
             filled_fields :=
               (if filled \<noteq> None \<and> filled \<noteq> Some [] then filled else filled_fields s)\<rparr>))"


text \<open>
  The two queries. The table is filtered, ordered and cut at \<open>limit\<close>; the stable sort
  fixes the order of rows with equal keys, which the database leaves open. On
  \<^typ>\<open>int option\<close> the order puts \<open>None\<close> first, as \<^verbatim>\<open>nullsfirst()\<close> does. A negative
  limit, which databases treat differently, returns no row here.
\<close>

definition get_pending_submissions :: "database \<Rightarrow> int \<Rightarrow> DirectorySubmission list" where
  "get_pending_submissions db limit =
     take (nat limit)
       (sort_key created_at
          (filter (\<lambda>r. status r = PENDING \<and> attempt_count r < max_attempts r) (submissions db)))"

definition get_retryable_submissions :: "database \<Rightarrow> int \<Rightarrow> int \<Rightarrow> DirectorySubmission list" where
  "get_retryable_submissions db now limit =
     (let retry_after = now - 3600000000 in
      take (nat limit)
        (sort_key last_attempt_at
           (filter (\<lambda>r. status r = FAILED \<and> attempt_count r < max_attempts r \<and>
                        (case last_attempt_at r of None \<Rightarrow> True | Some t \<Rightarrow> t < retry_after))
              (submissions db))))"

text \<open>The rows that \<^verbatim>\<open>get_retryable_submissions\<close> selects at the time \<open>now\<close>: FAILED, with
  attempts left, and never attempted or last attempted more than one hour ago.\<close>

definition retry_eligible :: "int \<Rightarrow> DirectorySubmission \<Rightarrow> bool" where
  "retry_eligible now r =
     (status r = FAILED \<and> attempt_count r < max_attempts r \<and>
      (case last_attempt_at r of None \<Rightarrow> True | Some t \<Rightarrow> 3600000000 < now - t))"

section \<open>The worker\<close>

text \<open>
  The dictionary a pipeline run returns (\<^verbatim>\<open>SubmissionExecutor.execute_submission\<close> or the
  demo simulator). \<^verbatim>\<open>detected_fields\<close> is \<open>None\<close> while it is still the empty dictionary.
\<close>

record run_result =
  success :: bool
  run_url :: string
  run_detected_fields :: "detected_snapshot option"
  run_filled_fields :: field_mapping
  run_screenshot_path :: "string option"
  run_error :: "string option"
  run_logs :: "step_log list"

text \<open>
  What the execution step of one job does: it returns a result dictionary, or an exception
  escapes it (\<open>Raised\<close> carries \<^verbatim>\<open>str(e)\<close>). The three clock readings are those of the
  pickup, of \<^verbatim>\<open>record_attempt\<close> and of the final status update.
\<close>

datatype run_outcome = Returned run_result | Raised string

record job_run =
  outcome :: run_outcome
  t_pickup :: int
  t_attempt :: int
  t_final :: int

record SubmissionWorker =
  is_running :: bool
  max_concurrent :: int
  current_tasks :: int

text \<open>
  \<^verbatim>\<open>_process_submission\<close>. The worker's \<^verbatim>\<open>submission\<close> and the object on which
  \<^verbatim>\<open>record_attempt\<close> executes \<^verbatim>\<open>submission.attempt_count += 1\<close> are loaded by the same
  \<^verbatim>\<open>AsyncSession\<close> for the same primary key, so after \<^verbatim>\<open>record_attempt\<close> the worker
  reads \<^verbatim>\<open>submission.attempt_count\<close> and \<^verbatim>\<open>submission.max_attempts\<close> from the row as
  \<^verbatim>\<open>record_attempt\<close> left it. The \<^verbatim>\<open>except\<close> branch only calls \<^verbatim>\<open>update_status\<close>;
  the \<^verbatim>\<open>finally\<close> clause restores the task counter. Database calls themselves are
  taken not to fail.
\<close>

definition process_submission ::
  "SubmissionWorker \<Rightarrow> database \<Rightarrow> int \<Rightarrow> job_run \<Rightarrow> SubmissionWorker \<times> database" where
  "process_submission w db submission_id run =
     (let w1 = w\<lparr>current_tasks := current_tasks w + 1\<rparr>;
          db' =
            (case get_by_id db submission_id of
               None \<Rightarrow> db
             | Some _ \<Rightarrow>
                 (let db1 = update_status db (t_pickup run) submission_id IN_PROGRESS None None None
                  in case outcome run of
                       Raised msg \<Rightarrow>
                         update_status db1 (t_final run) submission_id FAILED (Some msg) None None
                     | Returned result \<Rightarrow>
                         (let db2 = record_attempt db1 (t_attempt run) submission_id
                                      \<lparr>le_status = (if success result then ''success'' else ''failed''),
                                       le_logs = run_logs result,
                                       le_error = run_error result\<rparr>
                                      (run_detected_fields result)
                                      (Some (run_filled_fields result))
                          in if success result then
                               update_status db2 (t_final run) submission_id SUBMITTED
                                 None None (run_screenshot_path result)
                             else
                               (case get_by_id db2 submission_id of
                                  None \<Rightarrow> db2
                                | Some submission \<Rightarrow>
                                    (let st = (if attempt_count submission \<ge> max_attempts submission - 1
                                               then FAILED else PENDING)
                                     in update_status db2 (t_final run) submission_id st
                                          (run_error result) None (run_screenshot_path result))))))
      in (w1\<lparr>current_tasks := current_tasks w1 - 1\<rparr>, db'))"

text \<open>\<^verbatim>\<open>_process_queue\<close>: one polling pass. \<open>runs\<close> gives, for each job id, what its
  execution does in this pass.\<close>

fun process_loop ::
  "SubmissionWorker \<Rightarrow> database \<Rightarrow> (int \<Rightarrow> job_run) \<Rightarrow> DirectorySubmission list
     \<Rightarrow> SubmissionWorker \<times> database" where
  "process_loop w db runs [] = (w, db)"
| "process_loop w db runs (submission # rest) =
     (if current_tasks w \<ge> max_concurrent w then (w, db)
      else (case process_submission w db (sub_id submission) (runs (sub_id submission)) of
              (w', db') \<Rightarrow> process_loop w' db' runs rest))"

definition process_queue ::
  "SubmissionWorker \<Rightarrow> database \<Rightarrow> (int \<Rightarrow> job_run) \<Rightarrow> SubmissionWorker \<times> database" where
  "process_queue w db runs =
     (let pending = get_pending_submissions db (max_concurrent w - current_tasks w)
      in if pending = [] then (w, db) else process_loop w db runs pending)"

text \<open>A freshly created job: \<^verbatim>\<open>SubmissionService.create\<close> with the column defaults of
  \<^verbatim>\<open>DirectorySubmission\<close>, except that \<open>max_attempts\<close> is given.\<close>

definition new_submission :: "int \<Rightarrow> int \<Rightarrow> int \<Rightarrow> int \<Rightarrow> int \<Rightarrow> DirectorySubmission" where
  "new_submission sid product directory limit_attempts now =
     \<lparr>sub_id = sid, saas_product_id = product, directory_id = directory, status = PENDING,
      submitted_at = None, approved_at = None, listing_url = None,
      attempt_count = 0, max_attempts = limit_attempts, last_attempt_at = None,
      submission_log = [], error_message = None, screenshot_path = None,
      detected_fields = None, filled_fields = None, created_at = now, updated_at = now\<rparr>"


subsection \<open>Row updates and example data\<close>

text \<open>The attribute writes of \<^verbatim>\<open>update_status\<close> and of \<^verbatim>\<open>record_attempt\<close> on one
  row, named so that the theorems can speak about them.\<close>

definition status_row ::
  "int \<Rightarrow> SubmissionStatus \<Rightarrow> string option \<Rightarrow> string option \<Rightarrow> string option
     \<Rightarrow> DirectorySubmission \<Rightarrow> DirectorySubmission" where
  "status_row now st e l p s = s
     \<lparr>status := st,
      updated_at := now,
      submitted_at := (if st = SUBMITTED then Some now else submitted_at s),
      approved_at := (if st \<noteq> SUBMITTED \<and> st = APPROVED then Some now else approved_at s),
      error_message := (if truthy_str e then e else error_message s),
      listing_url := (if truthy_str l then l else listing_url s),
      screenshot_path := (if truthy_str p then p else screenshot_path s)\<rparr>"

definition attempt_row ::
  "int \<Rightarrow> log_entry \<Rightarrow> detected_snapshot option \<Rightarrow> field_mapping option
     \<Rightarrow> DirectorySubmission \<Rightarrow> DirectorySubmission" where
  "attempt_row now entry detected filled s = s
     \<lparr>attempt_count := attempt_count s + 1,
      last_attempt_at := Some now,
      updated_at := now,
      submission_log :=
        (if submission_log s = [] then
           [\<lparr>entry_status = le_status entry, entry_logs = le_logs entry,
             entry_error = le_error entry, entry_timestamp = now,
             entry_attempt = attempt_count s + 1\<rparr>]
         else submission_log s),
      detected_fields := (if detected \<noteq> None then detected else detected_fields s),
      filled_fields := (if filled \<noteq> None \<and> filled \<noteq> Some [] then filled else filled_fields s)\<rparr>"


text \<open>Example data for the concrete instances below: a failed and a successful run
  result, a run at a given time, an idle worker, a table holding one job, and a job that
  failed once at time \<open>t\<close> and was set to FAILED.\<close>

definition failed_result :: "string \<Rightarrow> run_result" where
  "failed_result e = \<lparr>success = False, run_url = ''https://dir.example/submit'',
     run_detected_fields = None, run_filled_fields = [], run_screenshot_path = None,
     run_error = Some e, run_logs = []\<rparr>"

definition ok_result :: run_result where
  "ok_result = \<lparr>success = True, run_url = ''https://dir.example/submit'',
     run_detected_fields = None, run_filled_fields = [],
     run_screenshot_path = Some ''screenshots/result.png'',
     run_error = None, run_logs = []\<rparr>"

definition run_at :: "run_outcome \<Rightarrow> int \<Rightarrow> job_run" where
  "run_at oc t = \<lparr>outcome = oc, t_pickup = t, t_attempt = t + 1, t_final = t + 2\<rparr>"

definition worker0 :: SubmissionWorker where
  "worker0 = \<lparr>is_running = True, max_concurrent = 3, current_tasks = 0\<rparr>"

definition single_job :: "DirectorySubmission \<Rightarrow> database" where
  "single_job s = \<lparr>submissions = [s], activity_logs = []\<rparr>"


definition failed_job :: "int \<Rightarrow> DirectorySubmission" where
  "failed_job t = (new_submission 1 1 1 3 0)
     \<lparr>status := FAILED, attempt_count := 1, last_attempt_at := Some t,
      error_message := Some ''Failed to load page''\<rparr>"

definition never_attempted_job :: DirectorySubmission where
  "never_attempted_job = (new_submission 2 1 2 3 0)\<lparr>status := FAILED\<rparr>"

text \<open>A table of three jobs: a fresh PENDING job, then the two FAILED ones.\<close>

definition three_jobs :: database where
  "three_jobs =
     \<lparr>submissions = [new_submission 3 1 3 3 5, failed_job 0, never_attempted_job],
      activity_logs = []\<rparr>"


section \<open>Python strings\<close>

text \<open>
  A Python \<^verbatim>\<open>str\<close> is a \<^typ>\<open>string\<close> whose characters are the code points below 256.
  \<^verbatim>\<open>lower()\<close> maps \<open>A\<close>..\<open>Z\<close> and the upper-case letters of Latin-1 (192..222 without
  215) to the code point 32 above, which is the same code with bit 5 set.
  \<^verbatim>\<open>replace\<close> is used by the code with one-character arguments only. \<^verbatim>\<open>sub in s\<close> is
  \<open>str_in sub s\<close>. \<^verbatim>\<open>strip()\<close> removes the white space of \<^verbatim>\<open>str.isspace\<close> at both ends.
\<close>

fun lower_char :: "char \<Rightarrow> char" where
  "lower_char (Char b0 b1 b2 b3 b4 b5 b6 b7) =
     (let n = (of_char (Char b0 b1 b2 b3 b4 b5 b6 b7) :: nat)
      in if (65 \<le> n \<and> n \<le> 90) \<or> (192 \<le> n \<and> n \<le> 222 \<and> n \<noteq> 215)
         then Char b0 b1 b2 b3 b4 True b6 b7 else Char b0 b1 b2 b3 b4 b5 b6 b7)"

definition lower :: "string \<Rightarrow> string" where
  "lower s = map lower_char s"

definition replace :: "char \<Rightarrow> char \<Rightarrow> string \<Rightarrow> string" where
  "replace old new s = map (\<lambda>c. if c = old then new else c) s"

fun startswith :: "string \<Rightarrow> string \<Rightarrow> bool" where
  "startswith s [] = True"
| "startswith [] (p # ps) = False"
| "startswith (c # cs) (p # ps) = (c = p \<and> startswith cs ps)"

fun str_in :: "string \<Rightarrow> string \<Rightarrow> bool" where
  "str_in sub [] = (sub = [])"
| "str_in sub (c # cs) = (startswith (c # cs) sub \<or> str_in sub cs)"

definition isspace :: "char \<Rightarrow> bool" where
  "isspace c = ((of_char c :: nat) \<in> {9, 10, 11, 12, 13, 28, 29, 30, 31, 32, 133, 160})"

definition strip :: "string \<Rightarrow> string" where
  "strip s = rev (dropWhile isspace (rev (dropWhile isspace s)))"

text \<open>Python's truth test on a value.\<close>

fun truthy :: "pyval \<Rightarrow> bool" where
  "truthy PyNone = False"
| "truthy (PyStr s) = (s \<noteq> [])"
| "truthy (PyInt i) = (i \<noteq> 0)"

text \<open>Assignment \<^verbatim>\<open>d[k] = v\<close> on an insertion-ordered dictionary: an existing key keeps
  its place and gets the new value, a new key goes to the end.\<close>

fun dict_set :: "'k \<Rightarrow> 'v \<Rightarrow> ('k \<times> 'v) list \<Rightarrow> ('k \<times> 'v) list" where
  "dict_set k v [] = [(k, v)]"
| "dict_set k v ((k', v') # rest) =
     (if k' = k then (k, v) # rest else (k', v') # dict_set k v rest)"

text \<open>
  \<^verbatim>\<open>s.partition(sep)\<close> at the first occurrence of a non-empty \<open>sep\<close>, \<open>None\<close> when there is
  none, and \<^verbatim>\<open>s.split(sep)\<close>, which cuts at the occurrences from left to right. The code
  splits at constant separators only; with an empty separator Python raises
  \<^verbatim>\<open>ValueError\<close>, and \<open>split\<close> is then the one-piece list.
\<close>

fun str_partition :: "string \<Rightarrow> string \<Rightarrow> (string \<times> string) option" where
  "str_partition [] sep = None"
| "str_partition (c # cs) sep =
     (if startswith (c # cs) sep then Some ([], drop (length sep) (c # cs))
      else map_option (\<lambda>(before, after). (c # before, after)) (str_partition cs sep))"

lemma str_partition_shorter:
  "str_partition s sep = Some (before, after) \<Longrightarrow> sep \<noteq> [] \<Longrightarrow> length after < length s"
proof (induction s arbitrary: before)
  case Nil
  then show ?case by simp
next
  case (Cons c cs)
  show ?case
  proof (cases "startswith (c # cs) sep")
    case True
    then show ?thesis using Cons.prems by (cases sep) auto
  next
    case False
    then obtain b where "str_partition cs sep = Some (b, after)"
      using Cons.prems by (auto split: prod.splits)
    then show ?thesis using Cons.IH [of b] Cons.prems(2) by simp
  qed
qed

function split :: "string \<Rightarrow> string \<Rightarrow> string list" where
  "split s sep =
     (if sep = [] then [s]
      else (case str_partition s sep of
              None \<Rightarrow> [s]
            | Some (before, after) \<Rightarrow> before # split after sep))"
  by pat_completeness auto
termination
  by (relation "measure (\<lambda>(s, sep). length s)") (auto dest: str_partition_shorter)

declare split.simps [simp del]

text \<open>The part of \<open>s\<close> before the first occurrence of \<open>sep\<close>, and \<open>s\<close> itself when \<open>sep\<close>
  does not occur: the first piece of \<^verbatim>\<open>s.split(sep)\<close>.\<close>

definition text_before :: "string \<Rightarrow> string \<Rightarrow> string" where
  "text_before s sep = (case str_partition s sep of None \<Rightarrow> s | Some (before, after) \<Rightarrow> before)"


section \<open>The field mapper\<close>

text \<open>\<^verbatim>\<open>FormDetectionService.map_saas_data_to_fields\<close>. The table \<^verbatim>\<open>field_mapping\<close> is a
  dictionary literal; its items are visited in the order in which they are written.\<close>

definition field_mapping_table :: "(string \<times> string list) list" where
  "field_mapping_table =
     [(''name'', [''name'', ''saas_name'', ''product_name'', ''title'', ''tool_name'', ''startup_name'']),
      (''product_name'', [''name'', ''saas_name'']),
      (''tool_name'', [''name'']),
      (''startup_name'', [''name'']),
      (''title'', [''name'', ''tagline'']),
      (''url'', [''website_url'', ''url'', ''website'', ''link'', ''homepage'']),
      (''website'', [''website_url'']),
      (''website_url'', [''website_url'']),
      (''link'', [''website_url'']),
      (''homepage'', [''website_url'']),
      (''description'', [''short_description'', ''long_description'', ''tagline'']),
      (''short_description'', [''short_description'', ''tagline'']),
      (''long_description'', [''long_description'', ''short_description'']),
      (''tagline'', [''tagline'', ''short_description'']),
      (''summary'', [''short_description'']),
      (''about'', [''long_description'', ''short_description'']),
      (''email'', [''contact_email'']),
      (''contact_email'', [''contact_email'']),
      (''contact'', [''contact_email'']),
      (''category'', [''category'']),
      (''categories'', [''category'']),
      (''type'', [''category'']),
      (''pricing'', [''pricing_model'', ''pricing_details'']),
      (''price'', [''pricing_model'']),
      (''pricing_model'', [''pricing_model'']),
      (''twitter'', [''twitter_url'']),
      (''twitter_url'', [''twitter_url'']),
      (''linkedin'', [''linkedin_url'']),
      (''github'', [''github_url''])]"

type_synonym saas_data = "string \<rightharpoonup> pyval"

text \<open>The inner loop: the first key of the group that the product data holds with a true
  value.\<close>

fun first_value :: "saas_data \<Rightarrow> string list \<Rightarrow> pyval option" where
  "first_value saas [] = None"
| "first_value saas (saas_key # saas_keys) =
     (case saas saas_key of
        None \<Rightarrow> first_value saas saas_keys
      | Some v \<Rightarrow> if truthy v then Some v else first_value saas saas_keys)"

text \<open>The outer loop over the table: it stops (\<^verbatim>\<open>if matched_value: break\<close>) only when a
  matching group has produced a value.\<close>

fun match_groups ::
  "(string \<times> string list) list \<Rightarrow> string \<Rightarrow> string \<Rightarrow> saas_data \<Rightarrow> pyval option" where
  "match_groups [] field_name_lower label_lower saas = None"
| "match_groups ((key, saas_keys) # rest) field_name_lower label_lower saas =
     (if str_in key field_name_lower \<or> str_in key label_lower then
        (case first_value saas saas_keys of
           Some v \<Rightarrow> Some v
         | None \<Rightarrow> match_groups rest field_name_lower label_lower saas)
      else match_groups rest field_name_lower label_lower saas)"

definition normalize :: "string \<Rightarrow> string" where
  "normalize s = replace CHR '' '' CHR ''_'' (replace CHR ''-'' CHR ''_'' (lower s))"

definition matched_value :: "FormField \<Rightarrow> saas_data \<Rightarrow> pyval option" where
  "matched_value field saas =
     match_groups field_mapping_table
       (normalize (name field))
       (normalize (case label field of None \<Rightarrow> [] | Some l \<Rightarrow> l))
       saas"

fun map_fields_loop :: "field_mapping \<Rightarrow> FormField list \<Rightarrow> saas_data \<Rightarrow> field_mapping" where
  "map_fields_loop filled [] saas = filled"
| "map_fields_loop filled (field # rest) saas =
     (case matched_value field saas of
        None \<Rightarrow> map_fields_loop filled rest saas
      | Some v \<Rightarrow>
          map_fields_loop
            (dict_set (selector field)
               \<lparr>mf_field_name = name field, mf_field_type = field_type field, mf_value = v\<rparr>
               filled)
            rest saas)"

definition map_saas_data_to_fields :: "FormField list \<Rightarrow> saas_data \<Rightarrow> field_mapping" where
  "map_saas_data_to_fields form_fields_arg saas = map_fields_loop [] form_fields_arg saas"





definition product_without_category :: saas_data where
  "product_without_category =
     [''name'' \<mapsto> PyStr ''Acme'', ''website_url'' \<mapsto> PyStr ''https://x.io'',
      ''category'' \<mapsto> PyStr [], ''pricing_model'' \<mapsto> PyStr ''freemium'']"


section \<open>The rule-based detector\<close>

text \<open>
  \<^verbatim>\<open>RuleBasedFormDetector.detect_fields_from_html\<close>. The function reads the document
  through the HTML parser only: the \<^verbatim>\<open>input\<close>, \<^verbatim>\<open>textarea\<close> and \<^verbatim>\<open>select\<close> elements in
  document order, each with its attributes, and for an id the stripped text of the first
  \<^verbatim>\<open>label\<close> element whose \<^verbatim>\<open>for\<close> attribute is that id. A parsed document is therefore
  the list of those elements and the list of the labels (the \<^verbatim>\<open>for\<close> value and the text).
\<close>

datatype tag = Input | Textarea | Select

record element =
  tag_name :: tag
  attrs :: "string \<rightharpoonup> string"

record html_doc =
  elements :: "element list"
  labels :: "(string \<times> string) list"

text \<open>\<^verbatim>\<open>element.get(k)\<close> in a truth test: the attribute is present and not empty.\<close>

definition has_attr :: "element \<Rightarrow> string \<Rightarrow> bool" where
  "has_attr e k = (case attrs e k of None \<Rightarrow> False | Some v \<Rightarrow> v \<noteq> [])"

definition attr_or :: "element \<Rightarrow> string \<Rightarrow> string \<Rightarrow> string" where
  "attr_or e k dflt = (case attrs e k of None \<Rightarrow> dflt | Some v \<Rightarrow> v)"

text \<open>One pass of the loop body: \<open>None\<close> is the \<^verbatim>\<open>continue\<close> for an element without a
  usable id or name.\<close>

definition detect_field :: "(string \<times> string) list \<Rightarrow> element \<Rightarrow> FormField option" where
  "detect_field label_list e =
     (let ftype = (case tag_name e of
                     Textarea \<Rightarrow> ''textarea''
                   | Select \<Rightarrow> ''select''
                   | Input \<Rightarrow> attr_or e ''type'' ''text'');
          n = (if has_attr e ''name'' then attr_or e ''name'' [] else attr_or e ''id'' []);
          lbl = (if has_attr e ''id'' then map_of label_list (attr_or e ''id'' []) else None)
      in if has_attr e ''id'' then
           Some \<lparr>name = n, field_type = ftype, label = lbl,
                 placeholder = Some (attr_or e ''placeholder'' []),
                 required = (attrs e ''required'' \<noteq> None),
                 selector = ''#'' @ attr_or e ''id'' [], options = None\<rparr>
         else if has_attr e ''name'' then
           Some \<lparr>name = n, field_type = ftype, label = lbl,
                 placeholder = Some (attr_or e ''placeholder'' []),
                 required = (attrs e ''required'' \<noteq> None),
                 selector = ''[name='' @ [CHR 0x27] @ attr_or e ''name'' [] @ [CHR 0x27] @ '']'',
                 options = None\<rparr>
         else None)"

fun detect_fields_loop :: "(string \<times> string) list \<Rightarrow> element list \<Rightarrow> FormField list" where
  "detect_fields_loop label_list [] = []"
| "detect_fields_loop label_list (e # rest) =
     (case detect_field label_list e of
        None \<Rightarrow> detect_fields_loop label_list rest
      | Some f \<Rightarrow> f # detect_fields_loop label_list rest)"

definition detect_fields_from_html :: "html_doc \<Rightarrow> FormField list" where
  "detect_fields_from_html doc = detect_fields_loop (labels doc) (elements doc)"

text \<open>An element can be targeted when its id or its name is present and not empty; its
  selector is built from the id when there is one, else from the name.\<close>

definition usable :: "element \<Rightarrow> bool" where
  "usable e = (has_attr e ''id'' \<or> has_attr e ''name'')"

definition selector_of :: "element \<Rightarrow> string" where
  "selector_of e =
     (if has_attr e ''id'' then ''#'' @ attr_or e ''id'' []
      else ''[name='' @ [CHR 0x27] @ attr_or e ''name'' [] @ [CHR 0x27] @ '']'')"

text \<open>Example data: an input element with the given attributes.\<close>

definition input_element :: "(string \<times> string) list \<Rightarrow> element" where
  "input_element attribute_list = \<lparr>tag_name = Input, attrs = map_of attribute_list\<rparr>"


section \<open>Form detection through a provider\<close>

text \<open>
  \<^verbatim>\<open>backend/app/automation/form_detector.py\<close>. Values decoded from JSON are \<open>json\<close>; an
  object is the list of its items, and a lookup finds the item of a key. The exceptions
  that the code can meet are all subclasses of \<^verbatim>\<open>Exception\<close>.
\<close>

datatype json =
  JNull | JBool bool | JInt int | JFloat real | JStr string
  | JArr "json list" | JObj "(string \<times> json) list"

datatype py_exception =
  Exception string | TransportError | JSONDecodeError | KeyError | IndexError
  | TypeError | AttributeError | ValidationError

datatype provider = OpenAI | Anthropic | Gemini | Groq

text \<open>What the HTTP client does with a request: it fails, or it returns a response with
  a status code and a body.\<close>

datatype http_result = ConnectionFailed | Response int string

text \<open>
  The parts of a run that are not code of the repository: the JSON decoder
  (\<^verbatim>\<open>json.loads\<close>, \<open>None\<close> for \<^verbatim>\<open>JSONDecodeError\<close>), the provider behind the HTTP client
  (given the provider, the screenshot and the truncated HTML), the HTML parser, and the conversions that the schema classes apply to values
  that do not have the declared type.
\<close>

record environment =
  loads :: "string \<Rightarrow> json option"
  post :: "provider \<Rightarrow> string \<Rightarrow> string \<Rightarrow> http_result"
  soup :: "string \<Rightarrow> html_doc"
  lax_str :: "json \<Rightarrow> string option"
  lax_bool :: "json \<Rightarrow> bool option"
  lax_float :: "json \<Rightarrow> real option"

text \<open>\<^verbatim>\<open>obj[key]\<close>, \<^verbatim>\<open>obj[i]\<close>, \<^verbatim>\<open>obj.get(key, default)\<close> and iteration over a decoded
  value.\<close>

fun getitem_key :: "json \<Rightarrow> string \<Rightarrow> py_exception + json" where
  "getitem_key (JObj items) k = (case map_of items k of None \<Rightarrow> Inl KeyError | Some v \<Rightarrow> Inr v)"
| "getitem_key _ k = Inl TypeError"

fun getitem_index :: "json \<Rightarrow> nat \<Rightarrow> py_exception + json" where
  "getitem_index (JArr xs) i = (if i < length xs then Inr (xs ! i) else Inl IndexError)"
| "getitem_index (JStr s) i = (if i < length s then Inr (JStr [s ! i]) else Inl IndexError)"
| "getitem_index (JObj items) i = Inl KeyError"
| "getitem_index _ i = Inl TypeError"

definition dict_get :: "(string \<times> json) list \<Rightarrow> string \<Rightarrow> json \<Rightarrow> json" where
  "dict_get items k dflt = (case map_of items k of None \<Rightarrow> dflt | Some v \<Rightarrow> v)"

fun iterate :: "json \<Rightarrow> py_exception + json list" where
  "iterate (JArr xs) = Inr xs"
| "iterate (JObj items) = Inr (map (\<lambda>(k, v). JStr k) items)"
| "iterate (JStr s) = Inr (map (\<lambda>c. JStr [c]) s)"
| "iterate _ = Inl TypeError"

text \<open>Sequencing of steps that may raise.\<close>

definition and_then :: "py_exception + 'a \<Rightarrow> ('a \<Rightarrow> py_exception + 'b) \<Rightarrow> py_exception + 'b" where
  "and_then r f = (case r of Inl e \<Rightarrow> Inl e | Inr v \<Rightarrow> f v)"

subsection \<open>Extracting the JSON text of a response\<close>

text \<open>The dictionary that \<^verbatim>\<open>_parse_response\<close> returns when the decoder fails.\<close>

definition parse_failure :: json where
  "parse_failure =
     JObj [(''form_found'', JBool False), (''fields'', JArr []), (''confidence'', JFloat 0),
           (''error'', JStr ''Failed to parse LLM response'')]"

text \<open>The three branches that choose \<^verbatim>\<open>json_str\<close>. The index \<open>1\<close> is in range in the
  first two branches, because the separator occurs in the text.\<close>

definition json_str :: "string \<Rightarrow> string" where
  "json_str content =
     (if str_in ''```json'' content then hd (split (split content ''```json'' ! 1) ''```'')
      else if str_in ''```'' content then hd (split (split content ''```'' ! 1) ''```'')
      else content)"

text \<open>
  \<^verbatim>\<open>_parse_response\<close>. The Gemini and Groq classes strip the content first. A content
  that is not a string fails in the membership test or in the method call, with an
  exception that is not \<^verbatim>\<open>JSONDecodeError\<close> and therefore leaves the method.
\<close>

definition strips_first :: "provider \<Rightarrow> bool" where
  "strips_first p = (p = Gemini \<or> p = Groq)"

fun parse_response :: "(string \<Rightarrow> json option) \<Rightarrow> provider \<Rightarrow> json \<Rightarrow> py_exception + json" where
  "parse_response decode p (JStr content) =
     (case decode (strip (json_str (if strips_first p then strip content else content))) of
        Some v \<Rightarrow> Inr v
      | None \<Rightarrow> Inr parse_failure)"
| "parse_response decode p (JArr xs) = Inl AttributeError"
| "parse_response decode p (JObj items) = Inl AttributeError"
| "parse_response decode p v = (if strips_first p then Inl AttributeError else Inl TypeError)"

subsection \<open>The provider call\<close>

definition truncate_html :: "provider \<Rightarrow> string \<Rightarrow> string" where
  "truncate_html p page_html = (if p = Groq then take 10000 page_html else take 15000 page_html)"

text \<open>Where each provider's response carries the text.\<close>

fun response_content :: "provider \<Rightarrow> json \<Rightarrow> py_exception + json" where
  "response_content Anthropic result =
     and_then (getitem_key result ''content'') (\<lambda>a.
     and_then (getitem_index a 0) (\<lambda>b. getitem_key b ''text''))"
| "response_content Gemini result =
     and_then (getitem_key result ''candidates'') (\<lambda>a.
     and_then (getitem_index a 0) (\<lambda>b.
     and_then (getitem_key b ''content'') (\<lambda>c.
     and_then (getitem_key c ''parts'') (\<lambda>d.
     and_then (getitem_index d 0) (\<lambda>e. getitem_key e ''text'')))))"
| "response_content p result =
     and_then (getitem_key result ''choices'') (\<lambda>a.
     and_then (getitem_index a 0) (\<lambda>b.
     and_then (getitem_key b ''message'') (\<lambda>c. getitem_key c ''content'')))"

definition api_name :: "provider \<Rightarrow> string" where
  "api_name p = (case p of OpenAI \<Rightarrow> ''OpenAI'' | Anthropic \<Rightarrow> ''Anthropic''
                 | Gemini \<Rightarrow> ''Gemini'' | Groq \<Rightarrow> ''Groq'')"

text \<open>\<^verbatim>\<open>analyze_form\<close>. The message of the exception for a status other than 200 ends
  with the status code, which is left out here.\<close>

definition analyze_form :: "environment \<Rightarrow> provider \<Rightarrow> string \<Rightarrow> string \<Rightarrow> py_exception + json" where
  "analyze_form env p screenshot_base64 page_html =
     (case post env p screenshot_base64 (truncate_html p page_html) of
        ConnectionFailed \<Rightarrow> Inl TransportError
      | Response status_code body \<Rightarrow>
          if status_code \<noteq> 200 then Inl (Exception (api_name p @ '' API error''))
          else (case loads env body of
                  None \<Rightarrow> Inl JSONDecodeError
                | Some result \<Rightarrow>
                    and_then (response_content p result) (parse_response (loads env) p)))"

subsection \<open>Building the result\<close>

text \<open>
  Validation by the schema classes. A value of the declared type is taken as it is (an
  integer is a valid \<^verbatim>\<open>float\<close>); what happens to any other value is the environment's
  conversion, and \<open>None\<close> is a \<^verbatim>\<open>ValidationError\<close>.
\<close>

definition validate_str :: "environment \<Rightarrow> json \<Rightarrow> string option" where
  "validate_str env v = (case v of JStr s \<Rightarrow> Some s | _ \<Rightarrow> lax_str env v)"

definition validate_optional_str :: "environment \<Rightarrow> json \<Rightarrow> string option option" where
  "validate_optional_str env v =
     (case v of JNull \<Rightarrow> Some None | _ \<Rightarrow> map_option Some (validate_str env v))"

definition validate_bool :: "environment \<Rightarrow> json \<Rightarrow> bool option" where
  "validate_bool env v = (case v of JBool b \<Rightarrow> Some b | _ \<Rightarrow> lax_bool env v)"

definition validate_float :: "environment \<Rightarrow> json \<Rightarrow> real option" where
  "validate_float env v =
     (case v of JFloat x \<Rightarrow> Some x | JInt i \<Rightarrow> Some (of_int i) | _ \<Rightarrow> lax_float env v)"

fun validate_all :: "('a \<Rightarrow> 'b option) \<Rightarrow> 'a list \<Rightarrow> 'b list option" where
  "validate_all f [] = Some []"
| "validate_all f (x # xs) =
     (case f x of None \<Rightarrow> None
      | Some y \<Rightarrow> (case validate_all f xs of None \<Rightarrow> None | Some ys \<Rightarrow> Some (y # ys)))"

definition validate_optional_str_list :: "environment \<Rightarrow> json \<Rightarrow> string list option option" where
  "validate_optional_str_list env v =
     (case v of JNull \<Rightarrow> Some None
      | JArr xs \<Rightarrow> map_option Some (validate_all (validate_str env) xs)
      | _ \<Rightarrow> None)"

text \<open>\<^verbatim>\<open>FormField(...)\<close> from one \<^verbatim>\<open>field_data\<close> dictionary, with the defaults of the
  \<^verbatim>\<open>get\<close> calls.\<close>

definition make_FormField :: "environment \<Rightarrow> (string \<times> json) list \<Rightarrow> FormField option" where
  "make_FormField env field_data =
     (case validate_str env (dict_get field_data ''name'' (JStr [])) of None \<Rightarrow> None | Some n \<Rightarrow>
      case validate_str env (dict_get field_data ''field_type'' (JStr ''text'')) of None \<Rightarrow> None | Some t \<Rightarrow>
      case validate_optional_str env (dict_get field_data ''label'' JNull) of None \<Rightarrow> None | Some l \<Rightarrow>
      case validate_optional_str env (dict_get field_data ''placeholder'' JNull) of None \<Rightarrow> None | Some ph \<Rightarrow>
      case validate_bool env (dict_get field_data ''required'' (JBool False)) of None \<Rightarrow> None | Some r \<Rightarrow>
      case validate_str env (dict_get field_data ''selector'' (JStr [])) of None \<Rightarrow> None | Some sel \<Rightarrow>
      case validate_optional_str_list env (dict_get field_data ''options'' JNull) of None \<Rightarrow> None | Some opts \<Rightarrow>
        Some \<lparr>name = n, field_type = t, label = l, placeholder = ph, required = r,
              selector = sel, options = opts\<rparr>)"

text \<open>The loop over \<^verbatim>\<open>result.get("fields", [])\<close>: an item that is not a dictionary has
  no \<^verbatim>\<open>get\<close>.\<close>

fun parse_fields :: "environment \<Rightarrow> json list \<Rightarrow> py_exception + FormField list" where
  "parse_fields env [] = Inr []"
| "parse_fields env (JObj field_data # rest) =
     (case make_FormField env field_data of
        None \<Rightarrow> Inl ValidationError
      | Some f \<Rightarrow> and_then (parse_fields env rest) (\<lambda>fs. Inr (f # fs)))"
| "parse_fields env (v # rest) = Inl AttributeError"

text \<open>The body of the \<^verbatim>\<open>try\<close> block of \<^verbatim>\<open>detect_form\<close> after the provider call.\<close>

fun build_result :: "environment \<Rightarrow> string \<Rightarrow> json \<Rightarrow> py_exception + FormDetectionResult" where
  "build_result env page_url (JObj result) =
     and_then (iterate (dict_get result ''fields'' (JArr []))) (\<lambda>items.
     and_then (parse_fields env items) (\<lambda>fs.
       case validate_bool env (dict_get result ''form_found'' (JBool False)) of None \<Rightarrow> Inl ValidationError | Some found \<Rightarrow>
       case validate_optional_str env (dict_get result ''form_selector'' JNull) of None \<Rightarrow> Inl ValidationError | Some fsel \<Rightarrow>
       case validate_optional_str env (dict_get result ''submit_button_selector'' JNull) of None \<Rightarrow> Inl ValidationError | Some sub \<Rightarrow>
       case validate_float env (dict_get result ''confidence'' (JFloat 0)) of None \<Rightarrow> Inl ValidationError | Some conf \<Rightarrow>
         Inr \<lparr>url = page_url, form_found = found, form_selector = fsel, form_fields = fs,
               submit_button_selector = sub, result_screenshot_path = None, confidence = conf\<rparr>))"
| "build_result env page_url v = Inl AttributeError"

text \<open>The result of the \<^verbatim>\<open>except\<close> branch.\<close>

definition detection_failure :: "string \<Rightarrow> FormDetectionResult" where
  "detection_failure page_url =
     \<lparr>url = page_url, form_found = False, form_selector = None, form_fields = [],
      submit_button_selector = None, result_screenshot_path = None, confidence = 0\<rparr>"

text \<open>\<^verbatim>\<open>FormDetectionService.detect_form\<close>: \<^verbatim>\<open>except Exception\<close> catches every exception
  of the \<^verbatim>\<open>try\<close> block.\<close>

definition detect_form ::
  "environment \<Rightarrow> provider \<Rightarrow> string \<Rightarrow> string \<Rightarrow> string \<Rightarrow> py_exception + FormDetectionResult" where
  "detect_form env p screenshot_base64 page_html page_url =
     (case and_then (analyze_form env p screenshot_base64 page_html) (build_result env page_url) of
        Inl e \<Rightarrow> Inr (detection_failure page_url)
      | Inr result \<Rightarrow> Inr result)"


text \<open>
  Example data: a response wrapped in a fenced block with and without the \<^verbatim>\<open>json\<close> tag,
  a JSON object whose string value
  contains fences, a text with a plain block before a tagged one, a provider response
  of the OpenAI shape that carries a given text, and an environment given by its decoder
  and by what the HTTP client returns.
\<close>

definition fenced :: "string \<Rightarrow> string" where
  "fenced j = ''```json'' @ [CHR 0x0A] @ j @ [CHR 0x0A] @ ''```''"

definition plain_fenced :: "string \<Rightarrow> string" where
  "plain_fenced j = ''```'' @ [CHR 0x0A] @ j @ [CHR 0x0A] @ ''```''"

definition body_with_fences :: string where
  "body_with_fences = ''{\"a\": \"```1```\"}''"

definition two_blocks :: string where
  "two_blocks = ''```{}``` ```json[]```''"

definition openai_answer :: "string \<Rightarrow> json" where
  "openai_answer content =
     JObj [(''choices'', JArr [JObj [(''message'', JObj [(''content'', JStr content)])]])]"

definition example_environment :: "(string \<Rightarrow> json option) \<Rightarrow> http_result \<Rightarrow> environment" where
  "example_environment decode answer =
     \<lparr>loads = decode, post = (\<lambda>p screenshot html. answer),
      soup = (\<lambda>html. \<lparr>elements = [], labels = []\<rparr>),
      lax_str = (\<lambda>v. None), lax_bool = (\<lambda>v. None), lax_float = (\<lambda>v. None)\<rparr>"


section \<open>The browser and the executor\<close>

text \<open>
  \<^verbatim>\<open>backend/app/automation/browser.py\<close>. What the browser and the page do in one run is
  given by a \<open>page\<close>: for each call that the pipeline makes, whether it succeeds and
  what it returns, or the message of the exception it raises (\<open>Inl\<close>). The methods that
  catch their own exceptions and return a truth value are given by that value.
\<close>

record page =
  start_error :: "string option"
  navigate_ok :: bool
  saved_screenshot :: "string \<Rightarrow> string + string"
  screenshot_base64 :: "string + string"
  content_at_detection :: "string + string"
  fill_field_ok :: "string \<Rightarrow> pyval \<Rightarrow> string \<Rightarrow> bool"
  captcha_present :: bool
  visible_submit :: "string option"
  click_submit_ok :: "string \<Rightarrow> bool"
  content_after_submit :: "string + string"
  url_after_submit :: string
  stop_error :: "string option"

text \<open>\<^verbatim>\<open>BrowserAutomation.detect_form\<close>: the provider first, then the rule-based detector
  on the same HTML.\<close>

definition browser_detect_form :: "environment \<Rightarrow> provider \<Rightarrow> page \<Rightarrow> string \<Rightarrow> FormDetectionResult" where
  "browser_detect_form env p pg page_url =
     (case screenshot_base64 pg of
        Inl e \<Rightarrow> detection_failure page_url
      | Inr shot \<Rightarrow>
          (case content_at_detection pg of
             Inl e \<Rightarrow> detection_failure page_url
           | Inr html \<Rightarrow>
               (case detect_form env p shot html page_url of
                  Inl e \<Rightarrow> detection_failure page_url
                | Inr result \<Rightarrow>
                    if \<not> form_found result \<or> length (form_fields result) = 0 then
                      (let fs = detect_fields_from_html (soup env html)
                       in if fs \<noteq> [] then
                            \<lparr>url = page_url, form_found = True, form_selector = None,
                             form_fields = fs, submit_button_selector = None,
                             result_screenshot_path = None, confidence = 1 / 2\<rparr>
                          else result)
                    else result)))"

subsection \<open>Judging the outcome\<close>

definition success_phrases :: "string list" where
  "success_phrases =
     [''thank you'', ''thanks for'', ''successfully submitted'', ''submission received'',
      ''we will review'', ''pending approval'', ''listing added'', ''product added'',
      ''successfully added'']"

definition error_phrases :: "string list" where
  "error_phrases =
     [''error'', ''failed'', ''invalid'', ''required field'', ''please fill'',
      ''already exists'', ''duplicate'']"

text \<open>The dictionary that \<^verbatim>\<open>check_submission_success\<close> returns; \<open>check_success\<close> is
  \<open>Some True\<close>, \<open>Some False\<close> or \<open>None\<close>.\<close>

record submission_check =
  check_success :: "bool option"
  check_message :: string
  check_url :: string

definition check_page :: "string \<Rightarrow> string \<Rightarrow> submission_check" where
  "check_page html current_url =
     (let html_lower = lower html
      in case find (\<lambda>phrase. str_in phrase html_lower) success_phrases of
           Some phrase \<Rightarrow>
             \<lparr>check_success = Some True,
              check_message = ''Detected success phrase: '' @ phrase, check_url = current_url\<rparr>
         | None \<Rightarrow>
             (case find (\<lambda>phrase. str_in phrase html_lower) error_phrases of
                Some phrase \<Rightarrow>
                  \<lparr>check_success = Some False,
                   check_message = ''Detected error phrase: '' @ phrase, check_url = current_url\<rparr>
              | None \<Rightarrow>
                  \<lparr>check_success = None,
                   check_message = ''Could not determine submission result'',
                   check_url = current_url\<rparr>))"

definition check_submission_success :: "page \<Rightarrow> string + submission_check" where
  "check_submission_success pg =
     (case content_after_submit pg of
        Inl e \<Rightarrow> Inl e
      | Inr html \<Rightarrow> Inr (check_page html (url_after_submit pg)))"

subsection \<open>The pipeline\<close>

definition step :: "string \<Rightarrow> string \<Rightarrow> step_log" where
  "step s st = [(''step'', PyStr s), (''status'', PyStr st)]"

text \<open>The three branches on \<^verbatim>\<open>submission_check["success"]\<close> at the end of the \<^verbatim>\<open>try\<close>
  block.\<close>

definition record_outcome :: "run_result \<Rightarrow> submission_check \<Rightarrow> run_result" where
  "record_outcome result submission_check_arg =
     (if check_success submission_check_arg = Some True then
        result\<lparr>success := True, run_logs := run_logs result @ [step ''submit'' ''success'']\<rparr>
      else if check_success submission_check_arg = Some False then
        result\<lparr>run_error := Some (check_message submission_check_arg),
               run_logs := run_logs result @ [step ''submit'' ''failed'']\<rparr>
      else
        result\<lparr>success := True,
               run_logs := run_logs result @
                 [step ''submit'' ''unknown'' @
                  [(''note'', PyStr ''Could not confirm, assuming success'')]]\<rparr>)"

text \<open>The log entry of an outcome that could not be confirmed.\<close>

definition unconfirmed_log :: step_log where
  "unconfirmed_log =
     step ''submit'' ''unknown'' @ [(''note'', PyStr ''Could not confirm, assuming success'')]"

text \<open>The logo goes to the first field of type \<^verbatim>\<open>file\<close>.\<close>

definition add_logo :: "string option \<Rightarrow> FormField list \<Rightarrow> field_mapping \<Rightarrow> field_mapping" where
  "add_logo logo_path fs mapping =
     (if truthy_str logo_path then
        (case find (\<lambda>f. field_type f = ''file'') fs of
           None \<Rightarrow> mapping
         | Some f \<Rightarrow>
             dict_set (selector f)
               \<lparr>mf_field_name = name f, mf_field_type = ''file'',
                mf_value = (case logo_path of None \<Rightarrow> PyNone | Some l \<Rightarrow> PyStr l)\<rparr>
               mapping)
      else mapping)"

text \<open>\<^verbatim>\<open>fill_form\<close>, and the two counts of the log entry.\<close>

definition fill_form :: "page \<Rightarrow> field_mapping \<Rightarrow> (string \<times> bool) list" where
  "fill_form pg mapping =
     map (\<lambda>(sel, info). (sel, fill_field_ok pg sel (mf_value info) (mf_field_type info))) mapping"

definition fill_log :: "(string \<times> bool) list \<Rightarrow> step_log" where
  "fill_log fill_results =
     step ''fill_form'' ''success'' @
     [(''filled'', PyInt (int (length (filter (\<lambda>(sel, ok). ok) fill_results)))),
      (''failed'', PyInt (int (length (filter (\<lambda>(sel, ok). \<not> ok) fill_results))))]"

text \<open>
  The \<^verbatim>\<open>try\<close> block of \<^verbatim>\<open>execute_submission\<close>. It ends with the returned result
  (\<open>Inr\<close>), or with an exception: its message, the result dictionary as it is at that
  moment, and whether the page exists (\<open>Inl\<close>).
\<close>

definition initial_result :: "string \<Rightarrow> run_result" where
  "initial_result directory_url =
     \<lparr>success = False, run_url = directory_url, run_detected_fields = None,
      run_filled_fields = [], run_screenshot_path = None, run_error = None, run_logs = []\<rparr>"

text \<open>The selector of the submit control: the detected one, or else the first visible
  one of the common selectors.\<close>

definition chosen_submit_selector :: "page \<Rightarrow> FormDetectionResult \<Rightarrow> string option" where
  "chosen_submit_selector pg form_result =
     (if truthy_str (submit_button_selector form_result)
      then submit_button_selector form_result else visible_submit pg)"

definition submit_steps :: "page \<Rightarrow> FormDetectionResult \<Rightarrow> run_result \<Rightarrow> (string \<times> run_result \<times> bool) + run_result" where
  "submit_steps pg form_result result5 =
     (let result6 = result5\<lparr>run_logs := run_logs result5 @ [step ''submit'' ''started'']\<rparr>;
          submit_selector = chosen_submit_selector pg form_result
      in if \<not> truthy_str submit_selector then
           Inr (result6\<lparr>run_error := Some ''Could not find submit button'',
                        run_logs := run_logs result6 @ [step ''submit'' ''failed'']\<rparr>)
         else if \<not> click_submit_ok pg (case submit_selector of None \<Rightarrow> [] | Some s \<Rightarrow> s) then
           Inr (result6\<lparr>run_error := Some ''Failed to click submit button'',
                        run_logs := run_logs result6 @ [step ''submit'' ''failed'']\<rparr>)
         else
           (case check_submission_success pg of
              Inl e \<Rightarrow> Inl (e, result6, True)
            | Inr submission_check_v \<Rightarrow>
                (case saved_screenshot pg ''result'' of
                   Inl e \<Rightarrow> Inl (e, result6, True)
                 | Inr final_screenshot \<Rightarrow>
                     Inr (record_outcome
                            (result6\<lparr>run_screenshot_path := Some final_screenshot\<rparr>)
                            submission_check_v))))"

definition execute_try ::
  "environment \<Rightarrow> provider \<Rightarrow> page \<Rightarrow> string \<Rightarrow> saas_data \<Rightarrow> string option
     \<Rightarrow> (string \<times> run_result \<times> bool) + run_result" where
  "execute_try env p pg directory_url saas logo_path =
     (let result0 = initial_result directory_url
      in case start_error pg of
           Some e \<Rightarrow> Inl (e, result0, False)
         | None \<Rightarrow>
             (let result1 = result0\<lparr>run_logs := run_logs result0 @ [step ''navigate'' ''started'']\<rparr>
              in if \<not> navigate_ok pg then
                   Inr (result1\<lparr>run_error := Some ''Failed to load page'',
                                run_logs := run_logs result1 @ [step ''navigate'' ''failed'']\<rparr>)
                 else
                   (let result2 = result1\<lparr>run_logs := run_logs result1 @ [step ''navigate'' ''success'']\<rparr>
                    in case saved_screenshot pg ''submission'' of
                         Inl e \<Rightarrow> Inl (e, result2, True)
                       | Inr shot \<Rightarrow>
                           (let result3 = result2
                                  \<lparr>run_screenshot_path := Some shot,
                                   run_logs := run_logs result2 @ [step ''detect_form'' ''started'']\<rparr>;
                                form_result = browser_detect_form env p pg directory_url
                            in if \<not> form_found form_result then
                                 Inr (result3\<lparr>run_error := Some ''No submission form found'',
                                              run_logs := run_logs result3 @ [step ''detect_form'' ''failed'']\<rparr>)
                               else
                                 (let mapping = add_logo logo_path (form_fields form_result)
                                                  (map_saas_data_to_fields (form_fields form_result) saas);
                                      result4 = result3
                                        \<lparr>run_detected_fields := Some
                                           \<lparr>ds_fields = form_fields form_result,
                                            ds_form_selector = form_selector form_result,
                                            ds_submit_button = submit_button_selector form_result,
                                            ds_confidence = confidence form_result\<rparr>,
                                         run_logs := run_logs result3 @
                                           [step ''detect_form'' ''success'', step ''fill_form'' ''started'']\<rparr>;
                                      fill_results = fill_form pg mapping;
                                      result5 = result4
                                        \<lparr>run_filled_fields := mapping,
                                         run_logs := run_logs result4 @ [fill_log fill_results]\<rparr>
                                  in if captcha_present pg then
                                       Inr (result5
                                         \<lparr>run_error := Some ''CAPTCHA detected - requires manual intervention'',
                                          run_logs := run_logs result5 @ [step ''captcha_check'' ''blocked'']\<rparr>)
                                     else submit_steps pg form_result result5)))))"

text \<open>
  \<^verbatim>\<open>execute_submission\<close>: the \<^verbatim>\<open>except\<close> branch completes the result of a run that
  raised, with a last screenshot when the page exists and the screenshot succeeds; the
  \<^verbatim>\<open>finally\<close> clause stops the browser, and an exception of that call leaves the method.
\<close>

definition execute_submission ::
  "environment \<Rightarrow> provider \<Rightarrow> page \<Rightarrow> string \<Rightarrow> saas_data \<Rightarrow> string option
     \<Rightarrow> string + run_result" where
  "execute_submission env p pg directory_url saas logo_path =
     (let returned =
            (case execute_try env p pg directory_url saas logo_path of
               Inr result \<Rightarrow> result
             | Inl (e, result, page_exists) \<Rightarrow>
                 (let result' = result
                        \<lparr>run_error := Some e,
                         run_logs := run_logs result @ [[(''step'', PyStr ''error''), (''message'', PyStr e)]]\<rparr>
                  in if page_exists then
                       (case saved_screenshot pg ''error'' of
                          Inl e2 \<Rightarrow> result'
                        | Inr shot \<Rightarrow> result'\<lparr>run_screenshot_path := Some shot\<rparr>)
                     else result'))
      in case stop_error pg of
           Some e \<Rightarrow> Inl e
         | None \<Rightarrow> Inr returned)"

text \<open>
  Example data: a page on which every step up to the click succeeds and which shows the
  given HTML afterwards, a document with two elements, a document with an input element
  whose id is empty, and an environment whose provider cannot be reached and whose
  parser returns the document with two elements.
\<close>

definition page_showing :: "string \<Rightarrow> page" where
  "page_showing html_after =
     \<lparr>start_error = None, navigate_ok = True,
      saved_screenshot = (\<lambda>n. Inr (''screenshots/'' @ n @ ''.png'')),
      screenshot_base64 = Inr ''png'', content_at_detection = Inr ''<form>'',
      fill_field_ok = (\<lambda>sel v t. True), captcha_present = False,
      visible_submit = Some ''button[type=submit]'', click_submit_ok = (\<lambda>sel. True),
      content_after_submit = Inr html_after, url_after_submit = ''https://dir.example/done'',
      stop_error = None\<rparr>"

definition email_form :: html_doc where
  "email_form = \<lparr>elements = [input_element [(''id'', ''email''), (''type'', ''email'')],
                              \<lparr>tag_name = Textarea, attrs = map_of [(''name'', ''desc'')]\<rparr>],
                  labels = [(''email'', ''Contact'')]\<rparr>"

definition empty_id_form :: html_doc where
  "empty_id_form = \<lparr>elements = [input_element [(''id'', [])]], labels = []\<rparr>"

definition fallback_environment :: environment where
  "fallback_environment =
     (example_environment (\<lambda>s. None) ConnectionFailed)\<lparr>soup := (\<lambda>html. email_form)\<rparr>"



section \<open>Properties of the service and the worker\<close>

subsection \<open>Reading a row after an update\<close>

lemma find_map_row:
  assumes "\<And>r. sub_id (f r) = sub_id r"
  shows "find (\<lambda>r. sub_id r = k) (map (\<lambda>r. if sub_id r = sid then f r else r) rows) =
         (if k = sid then map_option f (find (\<lambda>r. sub_id r = k) rows)
          else find (\<lambda>r. sub_id r = k) rows)"
  using assms by (induction rows) auto

lemma get_by_id_flush_row:
  assumes "\<And>r. sub_id (f r) = sub_id r"
  shows "get_by_id (flush_row db sid f) k =
         (if k = sid then map_option f (get_by_id db sid) else get_by_id db k)"
  using find_map_row [of f k sid "submissions db", OF assms]
  by (simp add: get_by_id_def flush_row_def)

lemma get_by_id_log_activity [simp]:
  "get_by_id (log_activity db a e i m) k = get_by_id db k"
  by (simp add: get_by_id_def log_activity_def)

lemma update_status_row:
  "update_status db now sid st e l p =
     (case get_by_id db sid of None \<Rightarrow> db
      | Some _ \<Rightarrow> log_activity (flush_row db sid (status_row now st e l p))
           (''submission_'' @ status_value st) ''submission'' sid
           (''Submission status changed to '' @ status_value st))"
  unfolding update_status_def status_row_def by (rule refl)

lemma record_attempt_row:
  "record_attempt db now sid entry d f =
     (case get_by_id db sid of None \<Rightarrow> db
      | Some _ \<Rightarrow> flush_row db sid (attempt_row now entry d f))"
  unfolding record_attempt_def attempt_row_def by (rule refl)

lemma sub_id_status_row [simp]: "sub_id (status_row now st e l p s) = sub_id s"
  by (simp add: status_row_def)

lemma sub_id_attempt_row [simp]: "sub_id (attempt_row now entry d f s) = sub_id s"
  by (simp add: attempt_row_def)

lemma get_by_id_update_status:
  "get_by_id (update_status db now sid st e l p) k =
     (if k = sid then map_option (status_row now st e l p) (get_by_id db sid)
      else get_by_id db k)"
  by (cases "get_by_id db sid") (simp_all add: update_status_row get_by_id_flush_row)

lemma get_by_id_record_attempt:
  "get_by_id (record_attempt db now sid entry d f) k =
     (if k = sid then map_option (attempt_row now entry d f) (get_by_id db sid)
      else get_by_id db k)"
  by (cases "get_by_id db sid") (simp_all add: record_attempt_row get_by_id_flush_row)

text \<open>The row of a processed job, in each of the three ways a run can end.\<close>

lemma get_by_id_process_submission:
  assumes "get_by_id db sid = Some s"
  shows "get_by_id (snd (process_submission w db sid run)) sid =
     Some (case outcome run of
        Raised msg \<Rightarrow>
          status_row (t_final run) FAILED (Some msg) None None
            (status_row (t_pickup run) IN_PROGRESS None None None s)
      | Returned result \<Rightarrow>
          (let s2 = attempt_row (t_attempt run)
                      \<lparr>le_status = (if success result then ''success'' else ''failed''),
                       le_logs = run_logs result, le_error = run_error result\<rparr>
                      (run_detected_fields result) (Some (run_filled_fields result))
                      (status_row (t_pickup run) IN_PROGRESS None None None s)
           in if success result
              then status_row (t_final run) SUBMITTED None None (run_screenshot_path result) s2
              else status_row (t_final run)
                     (if attempt_count s2 \<ge> max_attempts s2 - 1 then FAILED else PENDING)
                     (run_error result) None (run_screenshot_path result) s2))"
  using assms
  by (cases "outcome run")
     (simp_all add: process_submission_def Let_def get_by_id_update_status get_by_id_record_attempt)

text \<open>After a run that returned a failed result, the status is decided by the
  incremented count: FAILED from \<open>max_attempts - 1\<close> on.\<close>

lemma failed_run_status:
  assumes "get_by_id db sid = Some s" and "outcome run = Returned result" and "\<not> success result"
  shows "\<exists>s'. get_by_id (snd (process_submission w db sid run)) sid = Some s' \<and>
           attempt_count s' = attempt_count s + 1 \<and> max_attempts s' = max_attempts s \<and>
           status s' = (if attempt_count s + 1 \<ge> max_attempts s - 1 then FAILED else PENDING)"
  using get_by_id_process_submission [OF assms(1), of w run] assms(2,3)
  by (simp add: status_row_def attempt_row_def Let_def)

lemma get_by_id_process_submission_other:
  assumes "k \<noteq> sid"
  shows "get_by_id (snd (process_submission w db sid run)) k = get_by_id db k"
  using assms
  by (cases "outcome run"; cases "get_by_id db sid")
     (simp_all add: process_submission_def Let_def get_by_id_update_status get_by_id_record_attempt
        split: option.splits)


lemma find_SomeD: "find P xs = Some r \<Longrightarrow> r \<in> set xs \<and> P r"
  by (induction xs) (auto split: if_splits)

lemma get_by_id_SomeD: "get_by_id db k = Some r \<Longrightarrow> r \<in> set (submissions db) \<and> sub_id r = k"
  unfolding get_by_id_def by (drule find_SomeD) simp

lemma get_by_id_process_loop_other:
  "\<forall>s \<in> set subs. sub_id s \<noteq> k \<Longrightarrow>
   get_by_id (snd (process_loop w db runs subs)) k = get_by_id db k"
proof (induction subs arbitrary: w db)
  case Nil
  then show ?case by simp
next
  case (Cons a subs)
  obtain w' db' where step: "process_submission w db (sub_id a) (runs (sub_id a)) = (w', db')"
    by (cases "process_submission w db (sub_id a) (runs (sub_id a))")
  have other: "get_by_id db' k = get_by_id db k"
    using get_by_id_process_submission_other [of k "sub_id a" w db "runs (sub_id a)"] Cons.prems step
    by simp
  have "get_by_id (snd (process_loop w' db' runs subs)) k = get_by_id db' k"
    using Cons.IH [of w' db'] Cons.prems by simp
  then show ?case using step other by simp
qed

lemma pending_rows:
  "r \<in> set (get_pending_submissions db limit) \<Longrightarrow> r \<in> set (submissions db) \<and> status r = PENDING"
  unfolding get_pending_submissions_def by (auto dest: in_set_takeD)

lemma failed_job_not_polled:
  assumes d: "distinct (map sub_id (submissions db))"
    and g: "get_by_id db k = Some r" and f: "status r \<noteq> PENDING"
  shows "get_by_id (snd (process_queue w db runs)) k = Some r"
proof -
  have r: "r \<in> set (submissions db)" "sub_id r = k"
    using get_by_id_SomeD [OF g] by simp_all
  have "\<forall>s \<in> set (get_pending_submissions db (max_concurrent w - current_tasks w)). sub_id s \<noteq> k"
  proof
    fix s assume s: "s \<in> set (get_pending_submissions db (max_concurrent w - current_tasks w))"
    then have m: "s \<in> set (submissions db)" and p: "status s = PENDING"
      using pending_rows by blast+
    show "sub_id s \<noteq> k"
    proof
      assume "sub_id s = k"
      then have "s = r" using d m r by (auto simp: distinct_map dest: inj_onD)
      then show False using p f by simp
    qed
  qed
  then show ?thesis
    using get_by_id_process_loop_other [of _ k w db runs] g
    by (simp add: process_queue_def Let_def)
qed

lemma retryable_rows:
  "r \<in> set (get_retryable_submissions db now limit) \<Longrightarrow>
     r \<in> set (submissions db) \<and> status r = FAILED \<and> attempt_count r < max_attempts r \<and>
     (last_attempt_at r = None \<or> (\<exists>t. last_attempt_at r = Some t \<and> 3600000000 < now - t))"
  unfolding get_retryable_submissions_def Let_def
  by (cases "last_attempt_at r") (auto dest!: in_set_takeD)

lemma retryable_sorted:
  "sorted (map last_attempt_at (get_retryable_submissions db now limit))"
proof -
  have "sorted (take n (map last_attempt_at (sort_key last_attempt_at rows)))" for n rows
    by (rule sorted_wrt_take) (rule sorted_sort_key)
  then show ?thesis
    unfolding get_retryable_submissions_def Let_def by (simp add: take_map)
qed

lemma retryable_length: "0 \<le> limit \<Longrightarrow> int (length (get_retryable_submissions db now limit)) \<le> limit"
  unfolding get_retryable_submissions_def Let_def by simp

lemma retryable_complete:
  assumes "int (length (submissions db)) \<le> limit" and "r \<in> set (submissions db)"
    and "status r = FAILED" and "attempt_count r < max_attempts r"
    and "last_attempt_at r = None \<or> (\<exists>t. last_attempt_at r = Some t \<and> 3600000000 < now - t)"
  shows "r \<in> set (get_retryable_submissions db now limit)"
proof -
  let ?P = "\<lambda>r. status r = FAILED \<and> attempt_count r < max_attempts r \<and>
                (case last_attempt_at r of None \<Rightarrow> True | Some t \<Rightarrow> t < now - 3600000000)"
  have "length (sort_key last_attempt_at (filter ?P (submissions db))) \<le> nat limit"
    using assms(1) length_filter_le [of ?P "submissions db"] by (simp del: length_filter_le)
  then have "get_retryable_submissions db now limit = sort_key last_attempt_at (filter ?P (submissions db))"
    unfolding get_retryable_submissions_def Let_def by simp
  moreover have "?P r" using assms(3-5) by (auto split: option.splits)
  ultimately show ?thesis using assms(2) by simp
qed

lemma get_by_id_single_job [simp]: "get_by_id (single_job s) (sub_id s) = Some s"
  by (simp add: single_job_def get_by_id_def)

lemma retryable_as_filter:
  "get_retryable_submissions db now limit =
     take (nat limit) (sort_key last_attempt_at (filter (retry_eligible now) (submissions db)))"
proof -
  have "(\<lambda>r. status r = FAILED \<and> attempt_count r < max_attempts r \<and>
             (case last_attempt_at r of None \<Rightarrow> True | Some t \<Rightarrow> t < now - 3600000000)) =
        retry_eligible now"
    by (rule ext) (auto simp: retry_eligible_def split: option.splits)
  then show ?thesis
    unfolding get_retryable_submissions_def Let_def by simp
qed

lemma retryable_length_min:
  "length (get_retryable_submissions db now limit) =
     min (nat limit) (length (filter (retry_eligible now) (submissions db)))"
  unfolding retryable_as_filter by (simp add: min.commute)

lemma retryable_all_when_uncut:
  assumes "int (length (filter (retry_eligible now) (submissions db))) \<le> limit"
    and "r \<in> set (submissions db)" and "retry_eligible now r"
  shows "r \<in> set (get_retryable_submissions db now limit)"
proof -
  have "length (sort_key last_attempt_at (filter (retry_eligible now) (submissions db))) \<le> nat limit"
    using assms(1) by simp
  then have "get_retryable_submissions db now limit =
               sort_key last_attempt_at (filter (retry_eligible now) (submissions db))"
    unfolding retryable_as_filter by simp
  then show ?thesis using assms(2,3) by simp
qed

lemma map_memberI: "x \<in> set xs \<Longrightarrow> f x \<in> set (map f xs)"
  by simp

lemma retryable_cut_is_latest:
  assumes "r \<in> set (submissions db)" and "retry_eligible now r"
    and "r \<notin> set (get_retryable_submissions db now limit)"
    and "r' \<in> set (get_retryable_submissions db now limit)"
  shows "last_attempt_at r' \<le> last_attempt_at r"
proof -
  let ?xs = "sort_key last_attempt_at (filter (retry_eligible now) (submissions db))"
  let ?n = "nat limit"
  have mem: "r \<in> set ?xs" using assms(1,2) by simp
  have parts: "set ?xs = set (take ?n ?xs) \<union> set (drop ?n ?xs)"
    by (metis append_take_drop_id set_append)
  have out: "r \<notin> set (take ?n ?xs)"
    using assms(3) unfolding retryable_as_filter .
  have d: "r \<in> set (drop ?n ?xs)"
    using mem parts out by blast
  have t: "r' \<in> set (take ?n ?xs)"
    using assms(4) unfolding retryable_as_filter .
  have "sorted (map last_attempt_at (take ?n ?xs) @ map last_attempt_at (drop ?n ?xs))"
    by (metis append_take_drop_id map_append sorted_sort_key)
  then have "\<forall>x \<in> set (map last_attempt_at (take ?n ?xs)).
               \<forall>y \<in> set (map last_attempt_at (drop ?n ?xs)). x \<le> y"
    unfolding sorted_append by blast
  moreover have "last_attempt_at r' \<in> set (map last_attempt_at (take ?n ?xs))"
    using t by (rule map_memberI)
  moreover have "last_attempt_at r \<in> set (map last_attempt_at (drop ?n ?xs))"
    using d by (rule map_memberI)
  ultimately show ?thesis by blast
qed



section \<open>Properties of the field mapper\<close>
















section \<open>Properties of the string functions\<close>

lemma startswith_length: "startswith s p \<Longrightarrow> length p \<le> length s"
  by (induction s p rule: startswith.induct) auto

lemma startswith_append: "startswith s p \<Longrightarrow> startswith (s @ t) p"
  by (induction s p rule: startswith.induct) auto

lemma startswith_self_append [simp]: "startswith (p @ t) p"
  by (induction p) auto

lemma startswith_shorter_pattern: "startswith s (p @ e) \<Longrightarrow> startswith s p"
  by (induction s p rule: startswith.induct) auto

lemma startswith_before_other_char:
  "n \<notin> set p \<Longrightarrow> startswith (u @ n # w) p \<Longrightarrow> startswith u p"
  by (induction u p rule: startswith.induct) auto

lemma str_in_length: "str_in sub s \<Longrightarrow> length sub \<le> length s"
  by (induction s) (auto dest: startswith_length)

lemma str_in_shorter_pattern: "str_in (p @ e) s \<Longrightarrow> str_in p s"
  by (induction s) (auto dest: startswith_shorter_pattern)

lemma str_in_append_right: "str_in p s \<Longrightarrow> str_in p (s @ t)"
proof (induction s)
  case Nil
  then show ?case by (cases t) auto
next
  case (Cons c s)
  then show ?case using startswith_append [of "c # s" p t] by auto
qed

lemma str_in_append_left: "str_in p s \<Longrightarrow> str_in p (a @ s)"
  by (induction a) auto

lemma str_partition_None: "\<not> str_in sep s \<Longrightarrow> str_partition s sep = None"
  by (induction s) auto

lemma str_partition_prefix [simp]: "sep \<noteq> [] \<Longrightarrow> str_partition (sep @ t) sep = Some ([], t)"
  by (cases sep) auto

lemma str_partition_Some:
  "str_in sep s \<Longrightarrow> sep \<noteq> [] \<Longrightarrow> \<exists>before after. str_partition s sep = Some (before, after)"
  by (induction s) auto

lemma split_no_separator: "\<not> str_in sep s \<Longrightarrow> split s sep = [s]"
  by (simp add: split.simps str_partition_None)

lemma split_at: "sep \<noteq> [] \<Longrightarrow> str_partition s sep = Some (before, after) \<Longrightarrow>
  split s sep = before # split after sep"
  by (simp add: split.simps)

lemma split_not_Nil [simp]: "split s sep \<noteq> []"
  by (simp add: split.simps split: option.splits)

lemma split_second_in_range: "str_in sep s \<Longrightarrow> sep \<noteq> [] \<Longrightarrow> 1 < length (split s sep)"
proof -
  assume a: "str_in sep s" "sep \<noteq> []"
  then obtain b r where p: "str_partition s sep = Some (b, r)"
    using str_partition_Some by blast
  have "split r sep \<noteq> []" by simp
  then have "0 < length (split r sep)" by blast
  then show ?thesis using split_at [OF a(2) p] by simp
qed

lemma str_partition_closing:
  "n \<notin> set sep \<Longrightarrow> sep \<noteq> [] \<Longrightarrow> \<not> str_in sep j \<Longrightarrow>
   str_partition (j @ n # sep @ t) sep = Some (j @ [n], t)"
proof (induction j)
  case Nil
  then have "\<not> startswith (n # sep @ t) sep" by (cases sep) auto
  then show ?case using Nil by simp
next
  case (Cons c j)
  have "\<not> startswith (c # j) sep" and nj: "\<not> str_in sep j"
    using Cons.prems(3) by auto
  then have "\<not> startswith ((c # j) @ n # sep @ t) sep"
    using startswith_before_other_char [OF Cons.prems(1)] by blast
  then show ?case using Cons.IH [OF Cons.prems(1,2) nj] by simp
qed

lemma no_longer_separator:
  "n \<notin> set sep \<Longrightarrow> sep \<noteq> [] \<Longrightarrow> e \<noteq> [] \<Longrightarrow> \<not> str_in sep j \<Longrightarrow>
   \<not> str_in (sep @ e) (j @ n # sep)"
proof (induction j)
  case Nil
  have "\<not> startswith (n # sep) (sep @ e)" using Nil by (cases sep) auto
  moreover have "\<not> str_in (sep @ e) sep"
    using str_in_length [of "sep @ e" sep] Nil by auto
  ultimately show ?case by simp
next
  case (Cons c j)
  have ns: "\<not> startswith (c # j) sep" and nj: "\<not> str_in sep j"
    using Cons.prems(4) by auto
  have "\<not> startswith ((c # j) @ n # sep) (sep @ e)"
  proof
    assume "startswith ((c # j) @ n # sep) (sep @ e)"
    then have "startswith ((c # j) @ n # sep) sep" by (rule startswith_shorter_pattern)
    then show False using startswith_before_other_char [OF Cons.prems(1)] ns by blast
  qed
  then show ?case using Cons.IH [OF Cons.prems(1,2,3) nj] by simp
qed

lemma strip_newlines:
  assumes "isspace n"
  shows "strip (n # j @ [n]) = strip j"
proof -
  have head: "dropWhile isspace (n # j @ [n]) = dropWhile isspace (j @ [n])"
    using assms by simp
  show ?thesis
  proof (cases "\<forall>x \<in> set j. isspace x")
    case True
    have a: "dropWhile isspace (j @ [n]) = []"
      using True assms by (simp add: dropWhile_eq_Nil_conv)
    have b: "dropWhile isspace j = []"
      using True by (simp add: dropWhile_eq_Nil_conv)
    show ?thesis
      unfolding strip_def head a b by (rule refl)
  next
    case False
    obtain x where "x \<in> set j" "\<not> isspace x" using False by blast
    then have a: "dropWhile isspace (j @ [n]) = dropWhile isspace j @ [n]"
      by (rule dropWhile_append1)
    have "dropWhile isspace (rev (dropWhile isspace j @ [n])) =
          dropWhile isspace (rev (dropWhile isspace j))"
      using assms by simp
    then show ?thesis
      unfolding strip_def head a by (rule arg_cong)
  qed
qed

lemma strip_sublist: "\<exists>a b. s = a @ strip s @ b"
proof -
  let ?d = "dropWhile isspace s"
  have 1: "s = takeWhile isspace s @ ?d" by simp
  have 2: "?d = rev (dropWhile isspace (rev ?d)) @ rev (takeWhile isspace (rev ?d))"
    by (metis rev_append rev_rev_ident takeWhile_dropWhile_id)
  have 3: "strip s = rev (dropWhile isspace (rev ?d))"
    by (simp add: strip_def)
  have "s = takeWhile isspace s @ strip s @ rev (takeWhile isspace (rev ?d))"
    using 1 2 3 by metis
  then show ?thesis by blast
qed

lemma str_in_strip: "str_in p (strip s) \<Longrightarrow> str_in p s"
proof -
  assume a: "str_in p (strip s)"
  obtain x y where s: "s = x @ strip s @ y" using strip_sublist by blast
  have "str_in p (x @ strip s @ y)"
    using a by (intro str_in_append_left str_in_append_right)
  then show ?thesis using s by simp
qed

lemma strip_no_leading_space: "dropWhile isspace (strip s) = strip s"
proof (cases "strip s = []")
  case True
  then show ?thesis by simp
next
  case False
  let ?d = "dropWhile isspace s"
  let ?r = "dropWhile isspace (rev ?d)"
  have t: "strip s = rev ?r" by (simp add: strip_def)
  then have r: "?r \<noteq> []" using False by simp
  have d: "?d \<noteq> []"
  proof
    assume "?d = []"
    then have "?r = []" by (simp only: rev.simps dropWhile.simps)
    then show False using r by (rule notE [rotated])
  qed
  have "rev ?d = takeWhile isspace (rev ?d) @ ?r" by simp
  then have "last (rev ?d) = last ?r" using r by (metis last_appendR)
  then have "hd (rev ?r) = hd ?d" using r d by (simp add: hd_rev last_rev)
  moreover have "\<not> isspace (hd ?d)" using d by (rule hd_dropWhile)
  ultimately show ?thesis using t by (simp add: dropWhile_eq_self_iff)
qed

lemma strip_idem [simp]: "strip (strip s) = strip s"
proof -
  have "strip (strip s) = rev (dropWhile isspace (rev (strip s)))"
    using strip_no_leading_space [of s] by (simp add: strip_def)
  also have "\<dots> = strip s" by (simp add: strip_def)
  finally show ?thesis .
qed



section \<open>Properties of form detection\<close>

lemma str_in_prefix: "p \<noteq> [] \<Longrightarrow> str_in p (p @ t)"
  by (cases p) auto

lemma json_str_fenced:
  assumes "\<not> str_in ''```'' j"
  shows "json_str (fenced j) = CHR 0x0A # j @ [CHR 0x0A]"
proof -
  let ?nl = "CHR 0x0A"
  let ?rest = "?nl # j @ ?nl # ''```''"
  have f: "fenced j = ''```json'' @ ?rest" by (simp add: fenced_def)
  have a: "str_in ''```json'' (fenced j)"
    unfolding f by (rule str_in_prefix) simp
  have nj: "\<not> str_in (''```'' @ ''json'') (j @ ?nl # ''```'')"
    by (rule no_longer_separator) (use assms in simp_all)
  have c: "\<not> str_in ''```json'' ?rest"
    using nj by simp
  have "split (fenced j) ''```json'' = [] # split ?rest ''```json''"
    unfolding f by (rule split_at) simp_all
  then have b: "split (fenced j) ''```json'' ! 1 = ?rest"
    using split_no_separator [OF c] by simp
  have "str_partition (j @ ?nl # ''```'' @ []) ''```'' = Some (j @ [?nl], [])"
    by (rule str_partition_closing) (use assms in simp_all)
  then have "str_partition ?rest ''```'' = Some (?nl # j @ [?nl], [])"
    by simp
  then have "split ?rest ''```'' = (?nl # j @ [?nl]) # split [] ''```''"
    by (intro split_at) simp_all
  then show ?thesis
    using a b by (simp add: json_str_def)
qed

lemma json_str_plain:
  assumes "\<not> str_in ''```'' j"
  shows "json_str j = j"
proof -
  have "\<not> str_in (''```'' @ ''json'') j"
    using assms str_in_shorter_pattern by blast
  then show ?thesis using assms by (simp add: json_str_def)
qed

lemma strip_fenced: "strip (fenced j) = fenced j"
  by (simp add: strip_def fenced_def isspace_def)

lemma parse_fenced:
  assumes "\<not> str_in ''```'' j"
  shows "parse_response decode p (JStr (fenced j)) = parse_response decode p (JStr j)"
proof -
  have ns: "\<not> str_in ''```'' (strip j)"
    using assms str_in_strip by blast
  have sp: "isspace (CHR 0x0A)" by (simp add: isspace_def)
  have l: "strip (json_str (fenced j)) = strip j"
    using json_str_fenced [OF assms] strip_newlines [OF sp, of j] by simp
  show ?thesis
    using l json_str_plain [OF assms] json_str_plain [OF ns]
    by (simp add: strip_fenced)
qed


lemma and_then_simps [simp]:
  "and_then (Inl e) f = Inl e" "and_then (Inr v) f = f v"
  by (simp_all add: and_then_def)

lemma build_result_parse_failure:
  "build_result env u parse_failure = Inr (detection_failure u)"
  by (simp add: parse_failure_def dict_get_def validate_bool_def validate_float_def
        validate_optional_str_def detection_failure_def)

lemma detect_form_returns: "\<exists>r. detect_form env p shot html u = Inr r"
  by (simp add: detect_form_def split: sum.splits)

lemma detect_form_of_exception:
  "analyze_form env p shot html = Inl e \<Longrightarrow>
   detect_form env p shot html u = Inr (detection_failure u)"
  by (simp add: detect_form_def)

lemma detect_form_of_parse_failure:
  "analyze_form env p shot html = Inr parse_failure \<Longrightarrow>
   detect_form env p shot html u = Inr (detection_failure u)"
  by (simp add: detect_form_def build_result_parse_failure)

lemma startswith_eq: "startswith s p \<Longrightarrow> s = p @ drop (length p) s"
  by (induction s p rule: startswith.induct) auto

lemma str_partition_eq: "str_partition s sep = Some (b, a) \<Longrightarrow> s = b @ sep @ a"
proof (induction s arbitrary: b)
  case Nil
  then show ?case by simp
next
  case (Cons c cs)
  show ?case
  proof (cases "startswith (c # cs) sep")
    case True
    then show ?thesis using Cons.prems startswith_eq [OF True] by auto
  next
    case False
    then obtain b0 where "str_partition cs sep = Some (b0, a)" "b = c # b0"
      using Cons.prems by (auto split: prod.splits)
    then show ?thesis using Cons.IH [of b0] by simp
  qed
qed

lemma str_partition_before_clean:
  "str_partition s sep = Some (b, a) \<Longrightarrow> sep \<noteq> [] \<Longrightarrow> str_partition b sep = None"
proof (induction s arbitrary: b)
  case Nil
  then show ?case by simp
next
  case (Cons c cs)
  show ?case
  proof (cases "startswith (c # cs) sep")
    case True
    then show ?thesis using Cons.prems by simp
  next
    case False
    then obtain b0 where p: "str_partition cs sep = Some (b0, a)" and b: "b = c # b0"
      using Cons.prems by (auto split: prod.splits)
    have "cs = b0 @ sep @ a" using p by (rule str_partition_eq)
    then have "\<not> startswith (c # b0) sep"
      using False startswith_append [of "c # b0" sep "sep @ a"] by auto
    then show ?thesis using Cons.IH [OF p Cons.prems(2)] b by simp
  qed
qed

lemma text_before_idem:
  "sep \<noteq> [] \<Longrightarrow> text_before (text_before s sep) sep = text_before s sep"
  by (cases "str_partition s sep")
     (auto simp: text_before_def dest: str_partition_before_clean)

lemma hd_split: "sep \<noteq> [] \<Longrightarrow> hd (split s sep) = text_before s sep"
  by (simp add: split.simps text_before_def split: option.splits)

lemma split_second:
  "sep \<noteq> [] \<Longrightarrow> str_partition s sep = Some (b, a) \<Longrightarrow> split s sep ! 1 = text_before a sep"
  using split_at [of sep s b a] hd_split [of sep a]
  by (simp add: hd_conv_nth)

lemma str_in_partition:
  assumes "sep \<noteq> []"
  shows "str_in sep s \<longleftrightarrow> str_partition s sep \<noteq> None"
proof
  assume "str_in sep s"
  then show "str_partition s sep \<noteq> None"
    using str_partition_Some [of sep s] assms by auto
next
  assume a: "str_partition s sep \<noteq> None"
  show "str_in sep s"
  proof (rule ccontr)
    assume "\<not> str_in sep s"
    then have "str_partition s sep = None" by (rule str_partition_None)
    then show False using a by simp
  qed
qed

lemma json_str_cases:
  "json_str content =
     (case str_partition content ''```json'' of
        Some (before, after) \<Rightarrow> text_before (text_before after ''```json'') ''```''
      | None \<Rightarrow>
          (case str_partition content ''```'' of
             Some (before, after) \<Rightarrow> text_before after ''```''
           | None \<Rightarrow> content))"
proof (cases "str_partition content ''```json''")
  case (Some ba)
  obtain b a where ba: "ba = (b, a)" by (cases ba)
  have "str_in ''```json'' content" using Some by (simp add: str_in_partition)
  moreover have "split content ''```json'' ! 1 = text_before a ''```json''"
    using Some ba by (intro split_second) simp_all
  ultimately show ?thesis
    using Some ba by (simp add: json_str_def hd_split)
next
  case None
  then have nj: "\<not> str_in ''```json'' content" by (simp add: str_in_partition)
  show ?thesis
  proof (cases "str_partition content ''```''")
    case (Some ba)
    obtain b a where ba: "ba = (b, a)" by (cases ba)
    have "str_in ''```'' content" using Some by (simp add: str_in_partition)
    moreover have "split content ''```'' ! 1 = text_before a ''```''"
      using Some ba by (intro split_second) simp_all
    ultimately show ?thesis
      using None nj Some ba by (simp add: json_str_def hd_split text_before_idem)
  next
    case n2: None
    then have "\<not> str_in ''```'' content" by (simp add: str_in_partition)
    then show ?thesis using None nj n2 by (simp add: json_str_def)
  qed
qed

lemma no_json_marker_after_fence:
  assumes "\<not> str_in ''```'' j"
  shows "\<not> str_in ''```json'' (CHR 0x0A # j @ CHR 0x0A # ''```'')"
proof -
  have "\<not> str_in (''```'' @ ''json'') (j @ CHR 0x0A # ''```'')"
    by (rule no_longer_separator) (use assms in simp_all)
  then show ?thesis by simp
qed

lemma closing_fence:
  assumes "\<not> str_in ''```'' j"
  shows "text_before (CHR 0x0A # j @ CHR 0x0A # ''```'') ''```'' = CHR 0x0A # j @ [CHR 0x0A]"
proof -
  have "str_partition (j @ CHR 0x0A # ''```'' @ []) ''```'' = Some (j @ [CHR 0x0A], [])"
    by (rule str_partition_closing) (use assms in simp_all)
  then show ?thesis by (simp add: text_before_def)
qed

lemma json_str_plain_fenced:
  assumes "\<not> str_in ''```'' j"
  shows "json_str (plain_fenced j) = CHR 0x0A # j @ [CHR 0x0A]"
proof -
  let ?rest = "CHR 0x0A # j @ CHR 0x0A # ''```''"
  have f: "plain_fenced j = ''```'' @ ?rest" by (simp add: plain_fenced_def)
  have "\<not> str_in ''```json'' (plain_fenced j)"
    using no_json_marker_after_fence [OF assms] by (simp add: plain_fenced_def)
  then have a: "str_partition (plain_fenced j) ''```json'' = None"
    by (rule str_partition_None)
  have b: "str_partition (plain_fenced j) ''```'' = Some ([], ?rest)"
    unfolding f by (rule str_partition_prefix) simp
  show ?thesis
    unfolding json_str_cases a b using closing_fence [OF assms] by simp
qed

lemma strip_plain_fenced: "strip (plain_fenced j) = plain_fenced j"
  by (simp add: strip_def plain_fenced_def isspace_def)

lemma parse_plain_fenced:
  assumes "\<not> str_in ''```'' j"
  shows "parse_response decode p (JStr (plain_fenced j)) = parse_response decode p (JStr j)"
proof -
  have ns: "\<not> str_in ''```'' (strip j)"
    using assms str_in_strip by blast
  have sp: "isspace (CHR 0x0A)" by (simp add: isspace_def)
  have l: "strip (json_str (plain_fenced j)) = strip j"
    using json_str_plain_fenced [OF assms] strip_newlines [OF sp, of j] by simp
  show ?thesis
    using l json_str_plain [OF assms] json_str_plain [OF ns]
    by (simp add: strip_plain_fenced)
qed



section \<open>Properties of the rule-based detector\<close>

lemma detect_field_None: "\<not> usable e \<Longrightarrow> detect_field ls e = None"
  by (simp add: detect_field_def usable_def Let_def)

lemma detect_field_Some:
  "usable e \<Longrightarrow> \<exists>f. detect_field ls e = Some f \<and> selector f = selector_of e"
  by (auto simp: detect_field_def usable_def selector_of_def Let_def)

lemma selector_of_not_empty: "selector_of e \<noteq> []"
  by (simp add: selector_of_def)

lemma selectors_detect_fields_loop:
  "map selector (detect_fields_loop ls es) = map selector_of (filter usable es)"
proof (induction es)
  case Nil
  then show ?case by simp
next
  case (Cons e es)
  show ?case
  proof (cases "usable e")
    case True
    then obtain f where "detect_field ls e = Some f" "selector f = selector_of e"
      using detect_field_Some by blast
    then show ?thesis using True Cons.IH by simp
  next
    case False
    then show ?thesis using detect_field_None [OF False] Cons.IH by simp
  qed
qed

lemma length_detect_fields_loop:
  "length (detect_fields_loop ls es) = length (filter usable es)"
proof -
  have "length (map selector (detect_fields_loop ls es)) = length (map selector_of (filter usable es))"
    by (simp only: selectors_detect_fields_loop)
  then show ?thesis by simp
qed

lemma selectors_not_empty:
  "f \<in> set (detect_fields_loop ls es) \<Longrightarrow> selector f \<noteq> []"
proof -
  assume "f \<in> set (detect_fields_loop ls es)"
  then have "selector f \<in> set (map selector (detect_fields_loop ls es))" by simp
  then have "selector f \<in> set (map selector_of (filter usable es))"
    by (simp only: selectors_detect_fields_loop)
  then obtain e where "selector f = selector_of e" by auto
  then show ?thesis by (simp add: selector_of_not_empty)
qed

lemma email_form_fields:
  "detect_fields_from_html email_form =
     [\<lparr>name = ''email'', field_type = ''email'', label = Some ''Contact'',
       placeholder = Some [], required = False, selector = ''#email'', options = None\<rparr>,
      \<lparr>name = ''desc'', field_type = ''textarea'', label = None,
       placeholder = Some [], required = False,
       selector = ''[name='' @ [CHR 0x27] @ ''desc'' @ [CHR 0x27] @ '']'', options = None\<rparr>]"
  by (simp add: detect_fields_from_html_def email_form_def input_element_def detect_field_def
        has_attr_def attr_or_def)



section \<open>Properties of the browser and the executor\<close>

lemma find_exists: "\<exists>x \<in> set xs. P x \<Longrightarrow> \<exists>y. find P xs = Some y"
  by (cases "find P xs") (auto simp: find_None_iff)

lemma check_page_success:
  "\<exists>ph \<in> set success_phrases. str_in ph (lower html) \<Longrightarrow>
   check_success (check_page html u) = Some True"
  using find_exists [of success_phrases "\<lambda>ph. str_in ph (lower html)"]
  by (auto simp: check_page_def Let_def)

lemma check_page_error:
  "\<forall>ph \<in> set success_phrases. \<not> str_in ph (lower html) \<Longrightarrow>
   \<exists>ph \<in> set error_phrases. str_in ph (lower html) \<Longrightarrow>
   check_success (check_page html u) = Some False"
  using find_exists [of error_phrases "\<lambda>ph. str_in ph (lower html)"]
  by (auto simp: check_page_def Let_def find_None_iff split: option.splits)

lemma check_page_unknown:
  "\<forall>ph \<in> set success_phrases. \<not> str_in ph (lower html) \<Longrightarrow>
   \<forall>ph \<in> set error_phrases. \<not> str_in ph (lower html) \<Longrightarrow>
   check_success (check_page html u) = None"
  by (auto simp: check_page_def Let_def find_None_iff split: option.splits)

lemma record_outcome_unknown:
  "check_success c = None \<Longrightarrow>
   success (record_outcome r c) \<and> run_error (record_outcome r c) = run_error r \<and>
   last (run_logs (record_outcome r c)) = unconfirmed_log"
  by (simp add: record_outcome_def unconfirmed_log_def)

lemma browser_fallback:
  assumes "screenshot_base64 pg = Inr shot" "content_at_detection pg = Inr html"
    and "detect_form env p shot html u = Inr primary"
    and "\<not> form_found primary \<or> form_fields primary = []"
  shows "detect_fields_from_html (soup env html) \<noteq> [] \<Longrightarrow>
           browser_detect_form env p pg u =
             \<lparr>url = u, form_found = True, form_selector = None,
              form_fields = detect_fields_from_html (soup env html),
              submit_button_selector = None, result_screenshot_path = None, confidence = 1 / 2\<rparr>"
    and "detect_fields_from_html (soup env html) = [] \<Longrightarrow> browser_detect_form env p pg u = primary"
  using assms by (auto simp: browser_detect_form_def Let_def)

lemma execute_soft_success:
  assumes "start_error pg = None" "navigate_ok pg" "saved_screenshot pg ''submission'' = Inr s1"
    and "form_found (browser_detect_form env p pg d)" "\<not> captcha_present pg"
    and "chosen_submit_selector pg (browser_detect_form env p pg d) = Some sel" "sel \<noteq> []"
    and "click_submit_ok pg sel" "content_after_submit pg = Inr html"
    and "saved_screenshot pg ''result'' = Inr s2" "stop_error pg = None"
    and "check_success (check_page html (url_after_submit pg)) = None"
  shows "\<exists>r. execute_submission env p pg d saas logo = Inr r \<and> success r \<and>
              run_error r = None \<and> run_screenshot_path r = Some s2 \<and>
              last (run_logs r) = unconfirmed_log"
  using assms
  by (simp add: execute_submission_def execute_try_def submit_steps_def
        check_submission_success_def record_outcome_def unconfirmed_log_def initial_result_def
        truthy_str_def Let_def)

lemma check_page_success_message:
  assumes "\<exists>ph \<in> set success_phrases. str_in ph (lower html)"
  shows "\<exists>ph. find (\<lambda>ph. str_in ph (lower html)) success_phrases = Some ph \<and>
              check_message (check_page html u) = ''Detected success phrase: '' @ ph"
proof -
  obtain ph where f: "find (\<lambda>ph. str_in ph (lower html)) success_phrases = Some ph"
    using find_exists [of success_phrases "\<lambda>ph. str_in ph (lower html)"] assms by blast
  have "check_message (check_page html u) = ''Detected success phrase: '' @ ph"
    using f by (simp add: check_page_def Let_def)
  with f show ?thesis by blast
qed

lemma check_page_error_message:
  assumes "\<forall>ph \<in> set success_phrases. \<not> str_in ph (lower html)"
    and "\<exists>ph \<in> set error_phrases. str_in ph (lower html)"
  shows "\<exists>ph. find (\<lambda>ph. str_in ph (lower html)) error_phrases = Some ph \<and>
              check_message (check_page html u) = ''Detected error phrase: '' @ ph"
proof -
  have n: "find (\<lambda>ph. str_in ph (lower html)) success_phrases = None"
    using assms(1) by (simp add: find_None_iff)
  obtain ph where f: "find (\<lambda>ph. str_in ph (lower html)) error_phrases = Some ph"
    using find_exists [of error_phrases "\<lambda>ph. str_in ph (lower html)"] assms(2) by blast
  have "check_message (check_page html u) = ''Detected error phrase: '' @ ph"
    using n f by (simp add: check_page_def Let_def)
  with f show ?thesis by blast
qed

lemma record_outcome_success:
  "check_success c = Some True \<Longrightarrow>
   success (record_outcome r c) \<and> run_error (record_outcome r c) = run_error r \<and>
   last (run_logs (record_outcome r c)) = step ''submit'' ''success''"
  by (simp add: record_outcome_def)

lemma record_outcome_failure:
  "check_success c = Some False \<Longrightarrow>
   success (record_outcome r c) = success r \<and>
   run_error (record_outcome r c) = Some (check_message c) \<and>
   last (run_logs (record_outcome r c)) = step ''submit'' ''failed''"
  by (simp add: record_outcome_def)

lemma execute_success:
  assumes "start_error pg = None" "navigate_ok pg" "saved_screenshot pg ''submission'' = Inr s1"
    and "form_found (browser_detect_form env p pg d)" "\<not> captcha_present pg"
    and "chosen_submit_selector pg (browser_detect_form env p pg d) = Some sel" "sel \<noteq> []"
    and "click_submit_ok pg sel" "content_after_submit pg = Inr html"
    and "saved_screenshot pg ''result'' = Inr s2" "stop_error pg = None"
    and "check_success (check_page html (url_after_submit pg)) = Some True"
  shows "\<exists>r. execute_submission env p pg d saas logo = Inr r \<and> success r \<and>
              run_error r = None \<and> run_screenshot_path r = Some s2 \<and>
              last (run_logs r) = step ''submit'' ''success''"
  using assms
  by (simp add: execute_submission_def execute_try_def submit_steps_def
        check_submission_success_def record_outcome_def initial_result_def
        truthy_str_def Let_def)

lemma execute_failure:
  assumes "start_error pg = None" "navigate_ok pg" "saved_screenshot pg ''submission'' = Inr s1"
    and "form_found (browser_detect_form env p pg d)" "\<not> captcha_present pg"
    and "chosen_submit_selector pg (browser_detect_form env p pg d) = Some sel" "sel \<noteq> []"
    and "click_submit_ok pg sel" "content_after_submit pg = Inr html"
    and "saved_screenshot pg ''result'' = Inr s2" "stop_error pg = None"
    and "check_success (check_page html (url_after_submit pg)) = Some False"
  shows "\<exists>r. execute_submission env p pg d saas logo = Inr r \<and> \<not> success r \<and>
              run_error r = Some (check_message (check_page html (url_after_submit pg))) \<and>
              run_screenshot_path r = Some s2 \<and>
              last (run_logs r) = step ''submit'' ''failed''"
  using assms
  by (simp add: execute_submission_def execute_try_def submit_steps_def
        check_submission_success_def record_outcome_def initial_result_def
        truthy_str_def Let_def)



subsection \<open>Attempt accounting after a failed run\<close>

text \<open>
  Claim C1. After a pipeline run that returns a failed result, the job is FAILED exactly
  when the incremented \<open>attempt_count\<close> has reached \<open>max_attempts\<close>, and PENDING otherwise;
  one failure with \<open>max_attempts > 1\<close> leaves the job PENDING with \<open>attempt_count = 1\<close>.

  The worker compares \<^verbatim>\<open>submission.attempt_count >= submission.max_attempts - 1\<close> after
  \<^verbatim>\<open>record_attempt\<close> has already incremented the count on the same object, so the
  allowance is one attempt short: a fresh job with \<open>max_attempts = 2\<close> that fails once has
  \<open>attempt_count = 1 < 2\<close> and is FAILED.
\<close>

theorem process_submission_failed_once_max_two:
  "map_option (\<lambda>s. (attempt_count s, max_attempts s, status s))
     (get_by_id (snd (process_submission worker0 (single_job (new_submission 1 1 1 2 0)) 1
                        (run_at (Returned (failed_result ''Failed to load page'')) 10))) 1)
   = Some (1, 2, FAILED)"
  using get_by_id_process_submission
          [of "single_job (new_submission 1 1 1 2 0)" 1 "new_submission 1 1 1 2 0" worker0
              "run_at (Returned (failed_result ''Failed to load page'')) 10"]
        get_by_id_single_job [of "new_submission 1 1 1 2 0"]
  by (simp add: new_submission_def run_at_def failed_result_def status_row_def attempt_row_def
        Let_def truthy_str_def)

subsection \<open>Retry eligibility and the polling pass\<close>

text \<open>
  Claim C2, as the code has it. \<^verbatim>\<open>get_retryable_submissions\<close> returns only FAILED rows
  with \<open>attempt_count < max_attempts\<close> that were never attempted or whose last attempt is
  strictly more than one hour before \<open>now\<close>; the result is ordered by \<open>last_attempt_at\<close>
  ascending with the never-attempted rows (\<open>None\<close>) first; it holds as many rows as there
  are such rows, up to \<open>limit\<close>; when there are at most \<open>limit\<close> such rows, every one of
  them is returned, and no such row that is left out comes before a returned row in that
  order. The polling pass \<^verbatim>\<open>_process_queue\<close> reads only PENDING rows, so with unique ids
  it leaves every FAILED job as it is, whatever the time.
\<close>

theorem retry_eligibility:
  "(\<forall>r \<in> set (get_retryable_submissions db now limit).
      r \<in> set (submissions db) \<and> status r = FAILED \<and> attempt_count r < max_attempts r \<and>
      (last_attempt_at r = None \<or> (\<exists>t. last_attempt_at r = Some t \<and> 3600000000 < now - t)))
   \<and> sorted (map last_attempt_at (get_retryable_submissions db now limit))
   \<and> length (get_retryable_submissions db now limit) =
       min (nat limit) (length (filter (retry_eligible now) (submissions db)))
   \<and> (int (length (filter (retry_eligible now) (submissions db))) \<le> limit \<longrightarrow>
        (\<forall>r \<in> set (submissions db).
           status r = FAILED \<and> attempt_count r < max_attempts r \<and>
           (last_attempt_at r = None \<or> (\<exists>t. last_attempt_at r = Some t \<and> 3600000000 < now - t))
           \<longrightarrow> r \<in> set (get_retryable_submissions db now limit)))
   \<and> (\<forall>r \<in> set (submissions db). \<forall>r' \<in> set (get_retryable_submissions db now limit).
        retry_eligible now r \<and> r \<notin> set (get_retryable_submissions db now limit) \<longrightarrow>
        last_attempt_at r' \<le> last_attempt_at r)
   \<and> (distinct (map sub_id (submissions db)) \<longrightarrow>
        (\<forall>k r. get_by_id db k = Some r \<and> status r = FAILED \<longrightarrow>
               get_by_id (snd (process_queue w db runs)) k = Some r))"
proof (intro conjI ballI impI allI)
  fix r assume "r \<in> set (get_retryable_submissions db now limit)"
  from retryable_rows [OF this]
  show "r \<in> set (submissions db)" "status r = FAILED" "attempt_count r < max_attempts r"
    "last_attempt_at r = None \<or> (\<exists>t. last_attempt_at r = Some t \<and> 3600000000 < now - t)"
    by simp_all
next
  show "sorted (map last_attempt_at (get_retryable_submissions db now limit))"
    by (rule retryable_sorted)
next
  show "length (get_retryable_submissions db now limit) =
          min (nat limit) (length (filter (retry_eligible now) (submissions db)))"
    by (rule retryable_length_min)
next
  fix r
  assume "int (length (filter (retry_eligible now) (submissions db))) \<le> limit"
    "r \<in> set (submissions db)"
    "status r = FAILED \<and> attempt_count r < max_attempts r \<and>
     (last_attempt_at r = None \<or> (\<exists>t. last_attempt_at r = Some t \<and> 3600000000 < now - t))"
  then show "r \<in> set (get_retryable_submissions db now limit)"
    using retryable_all_when_uncut [of now db limit r]
    by (auto simp: retry_eligible_def split: option.splits)
next
  fix r r'
  assume "r \<in> set (submissions db)" "r' \<in> set (get_retryable_submissions db now limit)"
    "retry_eligible now r \<and> r \<notin> set (get_retryable_submissions db now limit)"
  then show "last_attempt_at r' \<le> last_attempt_at r"
    using retryable_cut_is_latest [of r db now limit r'] by simp
next
  fix k r
  assume "distinct (map sub_id (submissions db))" "get_by_id db k = Some r \<and> status r = FAILED"
  then show "get_by_id (snd (process_queue w db runs)) k = Some r"
    using failed_job_not_polled [of db k r w runs] by simp
qed

theorem retry_eligibility_witness:
  "get_retryable_submissions three_jobs 3660000000 2 = [never_attempted_job, failed_job 0]
   \<and> length (submissions three_jobs) = 3
   \<and> length (filter (retry_eligible 3660000000) (submissions three_jobs)) = 2
   \<and> get_retryable_submissions three_jobs 3660000000 1 = [never_attempted_job]
   \<and> retry_eligible 3660000000 (failed_job 0)
   \<and> last_attempt_at never_attempted_job \<le> last_attempt_at (failed_job 0)
   \<and> distinct (map sub_id (submissions three_jobs))
   \<and> get_by_id three_jobs 1 = Some (failed_job 0)
   \<and> status (failed_job 0) = FAILED
   \<and> get_by_id (snd (process_queue worker0 three_jobs
                        (\<lambda>k. run_at (Returned ok_result) 3660000000))) 1 = Some (failed_job 0)
   \<and> map_option status (get_by_id (snd (process_queue worker0 three_jobs
                        (\<lambda>k. run_at (Returned ok_result) 3660000000))) 3) = Some SUBMITTED"
proof -
  let ?runs = "\<lambda>k. run_at (Returned ok_result) 3660000000"
  have two: "get_retryable_submissions three_jobs 3660000000 2 = [never_attempted_job, failed_job 0]"
    by (simp add: get_retryable_submissions_def three_jobs_def failed_job_def
          never_attempted_job_def new_submission_def)
  have one: "get_retryable_submissions three_jobs 3660000000 1 = [never_attempted_job]"
    by (simp add: get_retryable_submissions_def three_jobs_def failed_job_def
          never_attempted_job_def new_submission_def)
  have n: "length (submissions three_jobs) = 3" by (simp add: three_jobs_def)
  have c: "length (filter (retry_eligible 3660000000) (submissions three_jobs)) = 2"
    by (simp add: retry_eligible_def three_jobs_def failed_job_def never_attempted_job_def
          new_submission_def)
  have e: "retry_eligible 3660000000 (failed_job 0)"
    by (simp add: retry_eligible_def failed_job_def new_submission_def)
  have m: "failed_job 0 \<in> set (submissions three_jobs)"
    "failed_job 0 \<notin> set (get_retryable_submissions three_jobs 3660000000 1)"
    "never_attempted_job \<in> set (get_retryable_submissions three_jobs 3660000000 1)"
    unfolding one by (simp_all add: three_jobs_def failed_job_def never_attempted_job_def
                        new_submission_def)
  have g: "get_by_id three_jobs 1 = Some (failed_job 0)"
    by (simp add: get_by_id_def three_jobs_def failed_job_def new_submission_def)
  have d: "distinct (map sub_id (submissions three_jobs))"
    by (simp add: three_jobs_def failed_job_def never_attempted_job_def new_submission_def)
  have f: "status (failed_job 0) = FAILED"
    by (simp add: failed_job_def)
  have cut: "last_attempt_at never_attempted_job \<le> last_attempt_at (failed_job 0)"
    using retry_eligibility [of three_jobs 3660000000 1 worker0 ?runs] m e by blast
  have kept: "get_by_id (snd (process_queue worker0 three_jobs ?runs)) 1 = Some (failed_job 0)"
    using retry_eligibility [of three_jobs 3660000000 2 worker0 ?runs] d g f by blast
  have g3: "get_by_id three_jobs 3 = Some (new_submission 3 1 3 3 5)"
    by (simp add: get_by_id_def three_jobs_def new_submission_def)
  have pend: "get_pending_submissions three_jobs 3 = [new_submission 3 1 3 3 5]"
    by (simp add: get_pending_submissions_def three_jobs_def failed_job_def
          never_attempted_job_def new_submission_def)
  have "process_queue worker0 three_jobs ?runs =
          process_submission worker0 three_jobs 3 (?runs 3)"
    using pend by (simp add: process_queue_def worker0_def new_submission_def
                     split: prod.splits)
  then have done3: "map_option status (get_by_id (snd (process_queue worker0 three_jobs ?runs)) 3)
                      = Some SUBMITTED"
    using get_by_id_process_submission [OF g3, of worker0 "?runs 3"]
    by (simp add: run_at_def ok_result_def status_row_def Let_def)
  show ?thesis using two n c one e cut d g f kept done3 by simp
qed

text \<open>
  Against the claim as stated: a FAILED job whose last attempt is exactly one hour old
  is not returned, and a polling pass 61 minutes after the failed attempt changes nothing,
  because the job is not PENDING.
\<close>

theorem retry_eligibility_counterexample:
  "get_retryable_submissions (single_job (failed_job 0)) 3600000000 10 = []
   \<and> process_queue worker0 (single_job (failed_job 0))
        (\<lambda>k. run_at (Returned ok_result) 3660000000) = (worker0, single_job (failed_job 0))"
  by (simp add: get_retryable_submissions_def get_pending_submissions_def process_queue_def
        single_job_def failed_job_def new_submission_def)

subsection \<open>The attempt counter\<close>

text \<open>
  Claim C3, as the code has it. Processing a job never decreases its \<open>attempt_count\<close>.
  When the pipeline run returns a result, success or failure, the count grows by exactly
  one. When an exception escapes the run and is caught at the job boundary, the job is
  set to FAILED and a non-empty exception message becomes its \<open>error_message\<close>, and the
  count stays as it was: that handler does not call \<^verbatim>\<open>record_attempt\<close>.
\<close>

theorem attempt_count_process_submission:
  assumes "get_by_id db sid = Some s"
  shows "\<exists>s'. get_by_id (snd (process_submission w db sid run)) sid = Some s' \<and>
           attempt_count s \<le> attempt_count s' \<and>
           (case outcome run of
              Returned result \<Rightarrow> attempt_count s' = attempt_count s + 1
            | Raised msg \<Rightarrow> attempt_count s' = attempt_count s \<and> status s' = FAILED \<and>
                            (msg \<noteq> [] \<longrightarrow> error_message s' = Some msg))"
  using get_by_id_process_submission [OF assms, of w run]
  by (cases "outcome run")
     (simp_all add: status_row_def attempt_row_def Let_def truthy_str_def)

theorem attempt_count_process_submission_witness:
  "get_by_id (single_job (new_submission 1 1 1 3 0)) 1 = Some (new_submission 1 1 1 3 0)
   \<and> (\<exists>s'. get_by_id (snd (process_submission worker0 (single_job (new_submission 1 1 1 3 0)) 1
                              (run_at (Raised ''boom'') 10))) 1 = Some s'
            \<and> attempt_count s' = 0 \<and> status s' = FAILED \<and> error_message s' = Some ''boom'')
   \<and> (\<exists>s'. get_by_id (snd (process_submission worker0 (single_job (new_submission 1 1 1 3 0)) 1
                              (run_at (Returned ok_result) 10))) 1 = Some s'
            \<and> attempt_count s' = 1)"
proof -
  have g: "get_by_id (single_job (new_submission 1 1 1 3 0)) 1 = Some (new_submission 1 1 1 3 0)"
    using get_by_id_single_job [of "new_submission 1 1 1 3 0"] by (simp add: new_submission_def)
  have c0: "attempt_count (new_submission 1 1 1 3 0) = 0"
    by (simp add: new_submission_def)
  have a: "\<exists>s'. get_by_id (snd (process_submission worker0 (single_job (new_submission 1 1 1 3 0)) 1
                              (run_at (Raised ''boom'') 10))) 1 = Some s'
            \<and> attempt_count s' = 0 \<and> status s' = FAILED \<and> error_message s' = Some ''boom''"
    using attempt_count_process_submission [OF g, of worker0 "run_at (Raised ''boom'') 10"] c0
    by (auto simp: run_at_def)
  have b: "\<exists>s'. get_by_id (snd (process_submission worker0 (single_job (new_submission 1 1 1 3 0)) 1
                              (run_at (Returned ok_result) 10))) 1 = Some s'
            \<and> attempt_count s' = 1"
    using attempt_count_process_submission [OF g, of worker0 "run_at (Returned ok_result) 10"] c0
    by (auto simp: run_at_def)
  show ?thesis using g a b by blast
qed

text \<open>Against the claim as stated: a run that ends in an exception leaves the count of a
  fresh job at \<open>0\<close>.\<close>

theorem attempt_count_exception_counterexample:
  "map_option (\<lambda>s. (attempt_count s, status s, error_message s))
     (get_by_id (snd (process_submission worker0 (single_job (new_submission 1 1 1 3 0)) 1
                        (run_at (Raised ''boom'') 10))) 1)
   = Some (0, FAILED, Some ''boom'')"
  using get_by_id_process_submission
          [of "single_job (new_submission 1 1 1 3 0)" 1 "new_submission 1 1 1 3 0" worker0
              "run_at (Raised ''boom'') 10"]
        get_by_id_single_job [of "new_submission 1 1 1 3 0"]
  by (simp add: new_submission_def run_at_def status_row_def truthy_str_def)

subsection \<open>Fields that a status update leaves alone\<close>

text \<open>
  Claim C10. A status update without an error message keeps the row's \<open>error_message\<close>,
  and likewise keeps \<open>listing_url\<close> and \<open>screenshot_path\<close> when those arguments are
  absent. A successful run passes no error message, so the job becomes SUBMITTED with the
  \<open>error_message\<close> it had before; in particular a job whose earlier run failed with the
  message \<open>e\<close> and whose later run succeeds is SUBMITTED and still carries \<open>e\<close>.
\<close>

theorem update_status_keeps_absent_fields:
  assumes "get_by_id db sid = Some s"
  shows "(\<exists>s'. get_by_id (update_status db now sid st e l p) sid = Some s' \<and> status s' = st \<and>
            (e = None \<longrightarrow> error_message s' = error_message s) \<and>
            (l = None \<longrightarrow> listing_url s' = listing_url s) \<and>
            (p = None \<longrightarrow> screenshot_path s' = screenshot_path s))
       \<and> (\<forall>result. outcome run = Returned result \<and> success result \<longrightarrow>
            (\<exists>s'. get_by_id (snd (process_submission w db sid run)) sid = Some s' \<and>
                  status s' = SUBMITTED \<and> error_message s' = error_message s))
       \<and> (\<forall>r1 r2 msg. outcome run1 = Returned r1 \<and> \<not> success r1 \<and> run_error r1 = Some msg \<and>
             msg \<noteq> [] \<and> outcome run2 = Returned r2 \<and> success r2 \<longrightarrow>
            (\<exists>s'. get_by_id (snd (process_submission w2
                                    (snd (process_submission w db sid run1)) sid run2)) sid = Some s' \<and>
                  status s' = SUBMITTED \<and> error_message s' = Some msg))"
proof (intro conjI allI impI)
  show "\<exists>s'. get_by_id (update_status db now sid st e l p) sid = Some s' \<and> status s' = st \<and>
            (e = None \<longrightarrow> error_message s' = error_message s) \<and>
            (l = None \<longrightarrow> listing_url s' = listing_url s) \<and>
            (p = None \<longrightarrow> screenshot_path s' = screenshot_path s)"
    using assms by (simp add: get_by_id_update_status status_row_def truthy_str_def)
next
  fix result assume "outcome run = Returned result \<and> success result"
  then show "\<exists>s'. get_by_id (snd (process_submission w db sid run)) sid = Some s' \<and>
                  status s' = SUBMITTED \<and> error_message s' = error_message s"
    using get_by_id_process_submission [OF assms, of w run]
    by (simp add: status_row_def attempt_row_def Let_def truthy_str_def)
next
  fix r1 r2 msg
  assume a: "outcome run1 = Returned r1 \<and> \<not> success r1 \<and> run_error r1 = Some msg \<and>
             msg \<noteq> [] \<and> outcome run2 = Returned r2 \<and> success r2"
  obtain s1 where s1: "get_by_id (snd (process_submission w db sid run1)) sid = Some s1"
    and e1: "error_message s1 = Some msg"
    using get_by_id_process_submission [OF assms, of w run1] a
    by (simp add: status_row_def attempt_row_def Let_def truthy_str_def)
  show "\<exists>s'. get_by_id (snd (process_submission w2
                                    (snd (process_submission w db sid run1)) sid run2)) sid = Some s' \<and>
                  status s' = SUBMITTED \<and> error_message s' = Some msg"
    using get_by_id_process_submission [OF s1, of w2 run2] a e1
    by (simp add: status_row_def attempt_row_def Let_def truthy_str_def)
qed

theorem update_status_keeps_absent_fields_witness:
  "get_by_id (single_job (failed_job 0)) 1 = Some (failed_job 0)
   \<and> (\<exists>s'. get_by_id (update_status (single_job (failed_job 0)) 50 1 SUBMITTED None None None) 1
              = Some s'
            \<and> status s' = SUBMITTED \<and> error_message s' = Some ''Failed to load page''
            \<and> listing_url s' = None \<and> screenshot_path s' = None)
   \<and> (\<exists>s'. get_by_id (snd (process_submission worker0 (single_job (failed_job 0)) 1
                              (run_at (Returned ok_result) 50))) 1 = Some s'
            \<and> status s' = SUBMITTED \<and> error_message s' = Some ''Failed to load page'')
   \<and> (\<exists>s'. get_by_id (snd (process_submission worker0
                (snd (process_submission worker0 (single_job (new_submission 1 1 1 3 0)) 1
                        (run_at (Returned (failed_result ''No submission form found'')) 10))) 1
                (run_at (Returned ok_result) 50))) 1 = Some s'
            \<and> status s' = SUBMITTED \<and> error_message s' = Some ''No submission form found'')"
proof -
  have g: "get_by_id (single_job (failed_job 0)) 1 = Some (failed_job 0)"
    using get_by_id_single_job [of "failed_job 0"] by (simp add: failed_job_def new_submission_def)
  have g0: "get_by_id (single_job (new_submission 1 1 1 3 0)) 1 = Some (new_submission 1 1 1 3 0)"
    using get_by_id_single_job [of "new_submission 1 1 1 3 0"] by (simp add: new_submission_def)
  have m: "error_message (failed_job 0) = Some ''Failed to load page''"
    "listing_url (failed_job 0) = None" "screenshot_path (failed_job 0) = None"
    by (simp_all add: failed_job_def new_submission_def)
  have a: "\<exists>s'. get_by_id (update_status (single_job (failed_job 0)) 50 1 SUBMITTED None None None) 1
              = Some s'
            \<and> status s' = SUBMITTED \<and> error_message s' = Some ''Failed to load page''
            \<and> listing_url s' = None \<and> screenshot_path s' = None"
    using update_status_keeps_absent_fields [OF g, of 50 SUBMITTED None None None] m by simp
  have b: "\<exists>s'. get_by_id (snd (process_submission worker0 (single_job (failed_job 0)) 1
                              (run_at (Returned ok_result) 50))) 1 = Some s'
            \<and> status s' = SUBMITTED \<and> error_message s' = Some ''Failed to load page''"
    using update_status_keeps_absent_fields
            [OF g, of 0 PENDING None None None "run_at (Returned ok_result) 50" worker0] m
    by (simp add: run_at_def ok_result_def)
  have c: "\<exists>s'. get_by_id (snd (process_submission worker0
                (snd (process_submission worker0 (single_job (new_submission 1 1 1 3 0)) 1
                        (run_at (Returned (failed_result ''No submission form found'')) 10))) 1
                (run_at (Returned ok_result) 50))) 1 = Some s'
            \<and> status s' = SUBMITTED \<and> error_message s' = Some ''No submission form found''"
    using update_status_keeps_absent_fields
            [OF g0, of 0 PENDING None None None "run_at (Returned ok_result) 50" worker0
               "run_at (Returned (failed_result ''No submission form found'')) 10"
               "run_at (Returned ok_result) 50" worker0]
    by (simp add: run_at_def ok_result_def failed_result_def)
  show ?thesis using g a b c by blast
qed






text \<open>
  Claim C4. \<^verbatim>\<open>detect_form\<close> returns a result for every input and every environment; no
  exception leaves it. When the HTTP client fails, when the status is not 200, when the
  body of the response is not JSON, and when the text that the provider returned does
  not decode, the result is the failure result, with \<open>form_found = False\<close> and
  \<open>confidence = 0\<close>.
\<close>

theorem detect_form_never_raises:
  "(\<exists>r. detect_form env p shot html u = Inr r)
   \<and> (post env p shot (truncate_html p html) = ConnectionFailed \<longrightarrow>
        detect_form env p shot html u = Inr (detection_failure u))
   \<and> (\<forall>st body. post env p shot (truncate_html p html) = Response st body \<and> st \<noteq> 200 \<longrightarrow>
        detect_form env p shot html u = Inr (detection_failure u))
   \<and> (\<forall>body. post env p shot (truncate_html p html) = Response 200 body \<and>
              loads env body = None \<longrightarrow>
        detect_form env p shot html u = Inr (detection_failure u))
   \<and> (\<forall>body result content.
          post env p shot (truncate_html p html) = Response 200 body \<and>
          loads env body = Some result \<and>
          response_content p result = Inr (JStr content) \<and>
          loads env (strip (json_str (if strips_first p then strip content else content))) = None \<longrightarrow>
        detect_form env p shot html u = Inr (detection_failure u))
   \<and> form_found (detection_failure u) = False \<and> confidence (detection_failure u) = 0"
proof (intro conjI allI impI)
  show "\<exists>r. detect_form env p shot html u = Inr r"
    by (rule detect_form_returns)
next
  assume "post env p shot (truncate_html p html) = ConnectionFailed"
  then have "analyze_form env p shot html = Inl TransportError"
    by (simp add: analyze_form_def)
  then show "detect_form env p shot html u = Inr (detection_failure u)"
    by (rule detect_form_of_exception)
next
  fix st body
  assume "post env p shot (truncate_html p html) = Response st body \<and> st \<noteq> 200"
  then have "analyze_form env p shot html = Inl (Exception (api_name p @ '' API error''))"
    by (simp add: analyze_form_def)
  then show "detect_form env p shot html u = Inr (detection_failure u)"
    by (rule detect_form_of_exception)
next
  fix body
  assume "post env p shot (truncate_html p html) = Response 200 body \<and> loads env body = None"
  then have "analyze_form env p shot html = Inl JSONDecodeError"
    by (simp add: analyze_form_def)
  then show "detect_form env p shot html u = Inr (detection_failure u)"
    by (rule detect_form_of_exception)
next
  fix body result content
  assume "post env p shot (truncate_html p html) = Response 200 body \<and>
          loads env body = Some result \<and>
          response_content p result = Inr (JStr content) \<and>
          loads env (strip (json_str (if strips_first p then strip content else content))) = None"
  then have "analyze_form env p shot html = Inr parse_failure"
    by (simp add: analyze_form_def)
  then show "detect_form env p shot html u = Inr (detection_failure u)"
    by (rule detect_form_of_parse_failure)
next
  show "form_found (detection_failure u) = False" "confidence (detection_failure u) = 0"
    by (simp_all add: detection_failure_def)
qed

theorem detect_form_never_raises_witness:
  "detect_form (example_environment (\<lambda>s. None) ConnectionFailed) OpenAI ''png'' ''<html>'' ''u''
     = Inr (detection_failure ''u'')
   \<and> detect_form (example_environment (\<lambda>s. None) (Response 500 ''busy'')) OpenAI ''png'' ''<html>'' ''u''
     = Inr (detection_failure ''u'')
   \<and> detect_form (example_environment (\<lambda>s. None) (Response 200 ''<html>Bad gateway</html>''))
        OpenAI ''png'' ''<html>'' ''u''
     = Inr (detection_failure ''u'')
   \<and> detect_form
        (example_environment
           (\<lambda>s. if s = ''answer'' then Some (openai_answer ''I see no form.'') else None)
           (Response 200 ''answer''))
        OpenAI ''png'' ''<html>'' ''u''
     = Inr (detection_failure ''u'')"
proof -
  let ?d = "\<lambda>s. if s = ''answer'' then Some (openai_answer ''I see no form.'') else None"
  have a: "detect_form (example_environment (\<lambda>s. None) ConnectionFailed) OpenAI ''png'' ''<html>'' ''u''
             = Inr (detection_failure ''u'')"
    using detect_form_never_raises
            [of "example_environment (\<lambda>s. None) ConnectionFailed" OpenAI "''png''" "''<html>''" "''u''"]
    by (simp add: example_environment_def)
  have b: "detect_form (example_environment (\<lambda>s. None) (Response 500 ''busy'')) OpenAI ''png'' ''<html>'' ''u''
             = Inr (detection_failure ''u'')"
    using detect_form_never_raises
            [of "example_environment (\<lambda>s. None) (Response 500 ''busy'')" OpenAI "''png''" "''<html>''" "''u''"]
    by (simp add: example_environment_def)
  have c: "detect_form (example_environment (\<lambda>s. None) (Response 200 ''<html>Bad gateway</html>''))
             OpenAI ''png'' ''<html>'' ''u'' = Inr (detection_failure ''u'')"
    using detect_form_never_raises
            [of "example_environment (\<lambda>s. None) (Response 200 ''<html>Bad gateway</html>'')"
                OpenAI "''png''" "''<html>''" "''u''"]
    by (simp add: example_environment_def)
  have path: "response_content OpenAI (openai_answer ''I see no form.'') = Inr (JStr ''I see no form.'')"
    by (simp add: openai_answer_def)
  have undecoded: "?d (strip (json_str ''I see no form.'')) = None"
    by (simp add: json_str_def strip_def isspace_def)
  have d: "detect_form (example_environment ?d (Response 200 ''answer'')) OpenAI ''png'' ''<html>'' ''u''
             = Inr (detection_failure ''u'')"
    using detect_form_never_raises
            [of "example_environment ?d (Response 200 ''answer'')" OpenAI "''png''" "''<html>''" "''u''"]
          path undecoded
    by (simp add: example_environment_def strips_first_def)
  show ?thesis using a b c d by blast
qed

text \<open>
  Claim C5, as the code has it. When the marker \<^verbatim>\<open>```json\<close> occurs in the response, the
  text taken is what follows its first occurrence, cut at the next \<^verbatim>\<open>```json\<close> and then
  at the first \<^verbatim>\<open>```\<close>; otherwise, when \<^verbatim>\<open>```\<close> occurs, it is what follows its first
  occurrence, cut at the next \<^verbatim>\<open>```\<close>; otherwise it is the whole response. For every
  body \<open>j\<close> in which no run of three backticks occurs, every decoder and every provider
  class, the response that wraps \<open>j\<close> in a fenced block, with or without the \<^verbatim>\<open>json\<close>
  tag, and the response that is \<open>j\<close> itself are parsed to the same result: the text taken
  from a fenced response is \<open>j\<close> between its two line breaks, the text taken from the plain
  response is \<open>j\<close>, and both are stripped before they are decoded.
\<close>

theorem fenced_parses_like_unfenced:
  "json_str content =
     (case str_partition content ''```json'' of
        Some (before, after) \<Rightarrow> text_before (text_before after ''```json'') ''```''
      | None \<Rightarrow>
          (case str_partition content ''```'' of
             Some (before, after) \<Rightarrow> text_before after ''```''
           | None \<Rightarrow> content))
   \<and> (\<not> str_in ''```'' j \<longrightarrow>
        json_str (fenced j) = CHR 0x0A # j @ [CHR 0x0A] \<and>
        json_str (plain_fenced j) = CHR 0x0A # j @ [CHR 0x0A] \<and>
        json_str j = j \<and>
        parse_response decode p (JStr (fenced j)) = parse_response decode p (JStr j) \<and>
        parse_response decode p (JStr (plain_fenced j)) = parse_response decode p (JStr j))"
  using json_str_cases [of content] json_str_fenced [of j] json_str_plain_fenced [of j]
    json_str_plain [of j] parse_fenced [of j decode p] parse_plain_fenced [of j decode p]
  by blast

theorem fenced_parses_like_unfenced_witness:
  "\<not> str_in ''```'' ''{}''
   \<and> parse_response (\<lambda>s. if s = ''{}'' then Some (JObj []) else None) OpenAI (JStr (fenced ''{}''))
       = Inr (JObj [])
   \<and> parse_response (\<lambda>s. if s = ''{}'' then Some (JObj []) else None) OpenAI
         (JStr (plain_fenced ''{}'')) = Inr (JObj [])
   \<and> parse_response (\<lambda>s. if s = ''{}'' then Some (JObj []) else None) OpenAI (JStr ''{}'')
       = Inr (JObj [])
   \<and> json_str (plain_fenced ''{}'') = CHR 0x0A # ''{}'' @ [CHR 0x0A]"
proof -
  let ?d = "\<lambda>s. if s = ''{}'' then Some (JObj []) else None"
  note inst = fenced_parses_like_unfenced [of "plain_fenced ''{}''" "''{}''" ?d OpenAI]
  have n: "\<not> str_in ''```'' ''{}''" by simp
  have u: "parse_response ?d OpenAI (JStr ''{}'') = Inr (JObj [])"
    by (simp add: json_str_def strips_first_def strip_def isspace_def)
  have f: "parse_response ?d OpenAI (JStr (fenced ''{}'')) = parse_response ?d OpenAI (JStr ''{}'')"
    using inst n by blast
  have g: "parse_response ?d OpenAI (JStr (plain_fenced ''{}''))
             = parse_response ?d OpenAI (JStr ''{}'')"
    using inst n by blast
  have h: "json_str (plain_fenced ''{}'') = CHR 0x0A # ''{}'' @ [CHR 0x0A]"
    using inst n by blast
  show ?thesis
    using n u f g h by (simp only: simp_thms)
qed

text \<open>
  Against the claim as stated. The JSON object \<open>{"a": "```1```"}\<close> contains fences in a
  string value. Wrapped in a fenced block, the text handed to the decoder is the part
  before the first inner fence, which is not JSON; unwrapped, it is \<open>1\<close>, the part between
  the two inner fences. A decoder that accepts \<open>1\<close> and rejects the other text, as
  \<^verbatim>\<open>json.loads\<close> does, gives two different results. And of two fenced blocks of which
  the second one is tagged \<^verbatim>\<open>json\<close>, the second is taken, not the first.
\<close>

theorem fenced_parses_like_unfenced_counterexample:
  "strip (json_str (fenced body_with_fences)) = ''{\"a\": \"''
   \<and> strip (json_str body_with_fences) = ''1''
   \<and> parse_response (\<lambda>s. if s = ''1'' then Some (JInt 1) else None) OpenAI
         (JStr (fenced body_with_fences)) = Inr parse_failure
   \<and> parse_response (\<lambda>s. if s = ''1'' then Some (JInt 1) else None) OpenAI
         (JStr body_with_fences) = Inr (JInt 1)
   \<and> json_str two_blocks = ''[]''"
  by (simp add: body_with_fences_def two_blocks_def fenced_def json_str_def split.simps
        strip_def isspace_def strips_first_def)


text \<open>
  Claim C6, as the code has it. The detector returns one field for every element whose
  id or name is present and not empty, in document order, and skips the others; so for a
  document all of whose \<open>N\<close> elements have a non-empty id or a non-empty name it returns
  exactly \<open>N\<close> fields. Every returned selector is non-empty: it is \<open>#\<close> and the id when
  the id is non-empty, and otherwise the attribute selector of the name.
\<close>

theorem rule_based_fields:
  "((\<forall>e \<in> set (elements doc). has_attr e ''id'' \<or> has_attr e ''name'') \<longrightarrow>
      length (detect_fields_from_html doc) = length (elements doc))
   \<and> length (detect_fields_from_html doc) = length (filter usable (elements doc))
   \<and> (\<forall>f \<in> set (detect_fields_from_html doc). selector f \<noteq> [])
   \<and> map selector (detect_fields_from_html doc) = map selector_of (filter usable (elements doc))"
proof (intro conjI impI ballI)
  assume "\<forall>e \<in> set (elements doc). has_attr e ''id'' \<or> has_attr e ''name''"
  then have "filter usable (elements doc) = elements doc"
    by (simp add: usable_def)
  then show "length (detect_fields_from_html doc) = length (elements doc)"
    by (simp add: detect_fields_from_html_def length_detect_fields_loop)
next
  show "length (detect_fields_from_html doc) = length (filter usable (elements doc))"
    by (simp add: detect_fields_from_html_def length_detect_fields_loop)
next
  fix f assume "f \<in> set (detect_fields_from_html doc)"
  then show "selector f \<noteq> []"
    unfolding detect_fields_from_html_def by (rule selectors_not_empty)
next
  show "map selector (detect_fields_from_html doc) = map selector_of (filter usable (elements doc))"
    by (simp add: detect_fields_from_html_def selectors_detect_fields_loop)
qed

theorem rule_based_fields_witness:
  "has_attr (elements email_form ! 0) ''id'' \<and> has_attr (elements email_form ! 1) ''name''
   \<and> length (elements email_form) = 2
   \<and> length (detect_fields_from_html email_form) = 2
   \<and> map selector (detect_fields_from_html email_form) =
       [''#email'', ''[name='' @ [CHR 0x27] @ ''desc'' @ [CHR 0x27] @ '']'']"
proof -
  have h: "\<forall>e \<in> set (elements email_form). has_attr e ''id'' \<or> has_attr e ''name''"
    by (simp add: email_form_def input_element_def has_attr_def)
  have n: "length (elements email_form) = 2" by (simp add: email_form_def)
  have "length (detect_fields_from_html email_form) = length (elements email_form)"
    using rule_based_fields [of email_form] h by blast
  moreover have "has_attr (elements email_form ! 0) ''id''"
    "has_attr (elements email_form ! 1) ''name''"
    by (simp_all add: email_form_def input_element_def has_attr_def)
  ultimately show ?thesis using n by (simp add: email_form_fields)
qed

text \<open>Against the claim as stated: an input element that has an id attribute, with the
  empty value, and no name is skipped, so a document of one such element gives no field.\<close>

theorem rule_based_fields_counterexample:
  "attrs (input_element [(''id'', [])]) ''id'' = Some []
   \<and> length (elements empty_id_form) = 1
   \<and> detect_fields_from_html empty_id_form = []"
  by (simp add: detect_fields_from_html_def empty_id_form_def input_element_def detect_field_def
        has_attr_def attr_or_def)



text \<open>
  Claim C8. When the provider's result has no form or no fields, the rule-based detector
  runs on the same HTML. If it returns fields, the result has \<open>form_found = True\<close>,
  \<open>confidence = 0.5\<close> and exactly those fields; otherwise the provider's result is
  returned as it is.
\<close>

theorem browser_detect_form_fallback:
  "screenshot_base64 pg = Inr shot \<and> content_at_detection pg = Inr html \<and>
   detect_form env p shot html u = Inr primary \<and>
   (\<not> form_found primary \<or> form_fields primary = []) \<longrightarrow>
     (detect_fields_from_html (soup env html) \<noteq> [] \<longrightarrow>
        browser_detect_form env p pg u =
          \<lparr>url = u, form_found = True, form_selector = None,
           form_fields = detect_fields_from_html (soup env html),
           submit_button_selector = None, result_screenshot_path = None, confidence = 1 / 2\<rparr>)
     \<and> (detect_fields_from_html (soup env html) = [] \<longrightarrow>
          browser_detect_form env p pg u = primary)"
  using browser_fallback [of pg shot html env p u primary] by blast

theorem browser_detect_form_fallback_witness:
  "browser_detect_form fallback_environment OpenAI (page_showing []) ''u'' =
     \<lparr>url = ''u'', form_found = True, form_selector = None,
      form_fields = detect_fields_from_html email_form,
      submit_button_selector = None, result_screenshot_path = None, confidence = 1 / 2\<rparr>
   \<and> browser_detect_form (example_environment (\<lambda>s. None) ConnectionFailed) OpenAI
         (page_showing []) ''u'' = detection_failure ''u''"
proof -
  let ?down = "example_environment (\<lambda>s. None) ConnectionFailed"
  have pa: "detect_form fallback_environment OpenAI ''png'' ''<form>'' ''u'' = Inr (detection_failure ''u'')"
    by (rule detect_form_of_exception [of _ _ _ _ TransportError])
       (simp add: analyze_form_def fallback_environment_def example_environment_def)
  have pb: "detect_form ?down OpenAI ''png'' ''<form>'' ''u'' = Inr (detection_failure ''u'')"
    by (rule detect_form_of_exception [of _ _ _ _ TransportError])
       (simp add: analyze_form_def example_environment_def)
  have sa: "soup fallback_environment ''<form>'' = email_form"
    by (simp add: fallback_environment_def)
  have sb: "detect_fields_from_html (soup ?down ''<form>'') = []"
    by (simp add: example_environment_def detect_fields_from_html_def)
  have ne: "detect_fields_from_html email_form \<noteq> []"
    by (simp add: email_form_fields)
  have pg: "screenshot_base64 (page_showing []) = Inr ''png''"
    "content_at_detection (page_showing []) = Inr ''<form>''"
    by (simp_all add: page_showing_def)
  have nf: "\<not> form_found (detection_failure ''u'')"
    by (simp add: detection_failure_def)
  have a: "browser_detect_form fallback_environment OpenAI (page_showing []) ''u'' =
     \<lparr>url = ''u'', form_found = True, form_selector = None,
      form_fields = detect_fields_from_html email_form,
      submit_button_selector = None, result_screenshot_path = None, confidence = 1 / 2\<rparr>"
    using browser_detect_form_fallback
            [of "page_showing []" "''png''" "''<form>''" fallback_environment OpenAI "''u''"
                "detection_failure ''u''"]
          pa pg nf ne sa by simp
  have b: "browser_detect_form ?down OpenAI (page_showing []) ''u'' = detection_failure ''u''"
    using browser_detect_form_fallback
            [of "page_showing []" "''png''" "''<form>''" ?down OpenAI "''u''"
                "detection_failure ''u''"]
          pb pg nf sb by simp
  show ?thesis using a b by simp
qed

text \<open>
  Claim C9. The page body is lower-cased; a success phrase that occurs in it makes the
  check successful, whatever else occurs; when no success phrase occurs, an error phrase
  makes it a failure; when no phrase of either list occurs the check is undetermined,
  and the run result then has \<open>success = True\<close>, its error is left as it was and its
  last log entry notes that the outcome could not be confirmed. The message of the check
  names the first phrase of the deciding list that occurs. A successful check sets
  \<open>success\<close> and leaves the error; a failed check leaves \<open>success\<close> as it was and sets the
  error to the message of the check. A run that passes every step up to the click
  returns, according to the page it then reads: with a success phrase, a result with
  \<open>success = True\<close> and no error; with an error phrase and no success phrase, a result
  with \<open>success = False\<close> whose error names the first error phrase that occurs; with no
  phrase, a result with \<open>success = True\<close>, no error and the note.
\<close>

theorem outcome_verification:
  "((\<exists>ph \<in> set success_phrases. str_in ph (lower html)) \<longrightarrow>
      check_success (check_page html u) = Some True)
   \<and> ((\<forall>ph \<in> set success_phrases. \<not> str_in ph (lower html)) \<and>
       (\<exists>ph \<in> set error_phrases. str_in ph (lower html)) \<longrightarrow>
      check_success (check_page html u) = Some False)
   \<and> ((\<forall>ph \<in> set success_phrases. \<not> str_in ph (lower html)) \<and>
       (\<forall>ph \<in> set error_phrases. \<not> str_in ph (lower html)) \<longrightarrow>
      check_success (check_page html u) = None \<and>
      success (record_outcome r (check_page html u)) \<and>
      run_error (record_outcome r (check_page html u)) = run_error r \<and>
      last (run_logs (record_outcome r (check_page html u))) = unconfirmed_log)
   \<and> (start_error pg = None \<and> navigate_ok pg \<and> saved_screenshot pg ''submission'' = Inr s1 \<and>
       form_found (browser_detect_form env p pg d) \<and> \<not> captcha_present pg \<and>
       chosen_submit_selector pg (browser_detect_form env p pg d) = Some sel \<and> sel \<noteq> [] \<and>
       click_submit_ok pg sel \<and> content_after_submit pg = Inr html \<and>
       saved_screenshot pg ''result'' = Inr s2 \<and> stop_error pg = None \<and>
       (\<forall>ph \<in> set success_phrases. \<not> str_in ph (lower html)) \<and>
       (\<forall>ph \<in> set error_phrases. \<not> str_in ph (lower html)) \<longrightarrow>
      (\<exists>res. execute_submission env p pg d saas logo = Inr res \<and> success res \<and>
             run_error res = None \<and> last (run_logs res) = unconfirmed_log))
   \<and> ((\<exists>ph \<in> set success_phrases. str_in ph (lower html)) \<longrightarrow>
      (\<exists>ph. find (\<lambda>ph. str_in ph (lower html)) success_phrases = Some ph \<and>
            check_message (check_page html u) = ''Detected success phrase: '' @ ph) \<and>
      success (record_outcome r (check_page html u)) \<and>
      run_error (record_outcome r (check_page html u)) = run_error r \<and>
      last (run_logs (record_outcome r (check_page html u))) = step ''submit'' ''success'')
   \<and> ((\<forall>ph \<in> set success_phrases. \<not> str_in ph (lower html)) \<and>
       (\<exists>ph \<in> set error_phrases. str_in ph (lower html)) \<longrightarrow>
      (\<exists>ph. find (\<lambda>ph. str_in ph (lower html)) error_phrases = Some ph \<and>
            check_message (check_page html u) = ''Detected error phrase: '' @ ph \<and>
            run_error (record_outcome r (check_page html u))
              = Some (''Detected error phrase: '' @ ph)) \<and>
      success (record_outcome r (check_page html u)) = success r \<and>
      last (run_logs (record_outcome r (check_page html u))) = step ''submit'' ''failed'')
   \<and> (start_error pg = None \<and> navigate_ok pg \<and> saved_screenshot pg ''submission'' = Inr s1 \<and>
       form_found (browser_detect_form env p pg d) \<and> \<not> captcha_present pg \<and>
       chosen_submit_selector pg (browser_detect_form env p pg d) = Some sel \<and> sel \<noteq> [] \<and>
       click_submit_ok pg sel \<and> content_after_submit pg = Inr html \<and>
       saved_screenshot pg ''result'' = Inr s2 \<and> stop_error pg = None \<and>
       (\<exists>ph \<in> set success_phrases. str_in ph (lower html)) \<longrightarrow>
      (\<exists>res. execute_submission env p pg d saas logo = Inr res \<and> success res \<and>
             run_error res = None \<and> run_screenshot_path res = Some s2 \<and>
             last (run_logs res) = step ''submit'' ''success''))
   \<and> (start_error pg = None \<and> navigate_ok pg \<and> saved_screenshot pg ''submission'' = Inr s1 \<and>
       form_found (browser_detect_form env p pg d) \<and> \<not> captcha_present pg \<and>
       chosen_submit_selector pg (browser_detect_form env p pg d) = Some sel \<and> sel \<noteq> [] \<and>
       click_submit_ok pg sel \<and> content_after_submit pg = Inr html \<and>
       saved_screenshot pg ''result'' = Inr s2 \<and> stop_error pg = None \<and>
       (\<forall>ph \<in> set success_phrases. \<not> str_in ph (lower html)) \<and>
       (\<exists>ph \<in> set error_phrases. str_in ph (lower html)) \<longrightarrow>
      (\<exists>res ph. execute_submission env p pg d saas logo = Inr res \<and> \<not> success res \<and>
             find (\<lambda>ph. str_in ph (lower html)) error_phrases = Some ph \<and>
             run_error res = Some (''Detected error phrase: '' @ ph) \<and>
             run_screenshot_path res = Some s2 \<and>
             last (run_logs res) = step ''submit'' ''failed''))"
proof -
  have c1: "(\<exists>ph \<in> set success_phrases. str_in ph (lower html)) \<longrightarrow>
      check_success (check_page html u) = Some True"
    using check_page_success [of html u] by blast
  have c2: "(\<forall>ph \<in> set success_phrases. \<not> str_in ph (lower html)) \<and>
       (\<exists>ph \<in> set error_phrases. str_in ph (lower html)) \<longrightarrow>
      check_success (check_page html u) = Some False"
    using check_page_error [of html u] by blast
  have c3: "(\<forall>ph \<in> set success_phrases. \<not> str_in ph (lower html)) \<and>
       (\<forall>ph \<in> set error_phrases. \<not> str_in ph (lower html)) \<longrightarrow>
      check_success (check_page html u) = None \<and>
      success (record_outcome r (check_page html u)) \<and>
      run_error (record_outcome r (check_page html u)) = run_error r \<and>
      last (run_logs (record_outcome r (check_page html u))) = unconfirmed_log"
  proof
    assume a: "(\<forall>ph \<in> set success_phrases. \<not> str_in ph (lower html)) \<and>
               (\<forall>ph \<in> set error_phrases. \<not> str_in ph (lower html))"
    then have n: "check_success (check_page html u) = None"
      using check_page_unknown [of html u] by blast
    show "check_success (check_page html u) = None \<and>
      success (record_outcome r (check_page html u)) \<and>
      run_error (record_outcome r (check_page html u)) = run_error r \<and>
      last (run_logs (record_outcome r (check_page html u))) = unconfirmed_log"
      using n record_outcome_unknown [OF n, of r] by simp
  qed
  have c4: "start_error pg = None \<and> navigate_ok pg \<and> saved_screenshot pg ''submission'' = Inr s1 \<and>
       form_found (browser_detect_form env p pg d) \<and> \<not> captcha_present pg \<and>
       chosen_submit_selector pg (browser_detect_form env p pg d) = Some sel \<and> sel \<noteq> [] \<and>
       click_submit_ok pg sel \<and> content_after_submit pg = Inr html \<and>
       saved_screenshot pg ''result'' = Inr s2 \<and> stop_error pg = None \<and>
       (\<forall>ph \<in> set success_phrases. \<not> str_in ph (lower html)) \<and>
       (\<forall>ph \<in> set error_phrases. \<not> str_in ph (lower html)) \<longrightarrow>
      (\<exists>res. execute_submission env p pg d saas logo = Inr res \<and> success res \<and>
             run_error res = None \<and> last (run_logs res) = unconfirmed_log)"
  proof
    assume a: "start_error pg = None \<and> navigate_ok pg \<and> saved_screenshot pg ''submission'' = Inr s1 \<and>
       form_found (browser_detect_form env p pg d) \<and> \<not> captcha_present pg \<and>
       chosen_submit_selector pg (browser_detect_form env p pg d) = Some sel \<and> sel \<noteq> [] \<and>
       click_submit_ok pg sel \<and> content_after_submit pg = Inr html \<and>
       saved_screenshot pg ''result'' = Inr s2 \<and> stop_error pg = None \<and>
       (\<forall>ph \<in> set success_phrases. \<not> str_in ph (lower html)) \<and>
       (\<forall>ph \<in> set error_phrases. \<not> str_in ph (lower html))"
    then have n: "check_success (check_page html (url_after_submit pg)) = None"
      using check_page_unknown [of html "url_after_submit pg"] by blast
    have "\<exists>r. execute_submission env p pg d saas logo = Inr r \<and> success r \<and>
                run_error r = None \<and> run_screenshot_path r = Some s2 \<and>
                last (run_logs r) = unconfirmed_log"
    proof (rule execute_soft_success [of pg s1 env p d sel html s2 saas logo])
      show "start_error pg = None" "navigate_ok pg" "saved_screenshot pg ''submission'' = Inr s1"
        "form_found (browser_detect_form env p pg d)" "\<not> captcha_present pg"
        "chosen_submit_selector pg (browser_detect_form env p pg d) = Some sel" "sel \<noteq> []"
        "click_submit_ok pg sel" "content_after_submit pg = Inr html"
        "saved_screenshot pg ''result'' = Inr s2" "stop_error pg = None"
        using a by simp_all
      show "check_success (check_page html (url_after_submit pg)) = None" by (rule n)
    qed
    then show "\<exists>res. execute_submission env p pg d saas logo = Inr res \<and> success res \<and>
               run_error res = None \<and> last (run_logs res) = unconfirmed_log"
      by auto
  qed
  have c5: "(\<exists>ph \<in> set success_phrases. str_in ph (lower html)) \<longrightarrow>
      (\<exists>ph. find (\<lambda>ph. str_in ph (lower html)) success_phrases = Some ph \<and>
            check_message (check_page html u) = ''Detected success phrase: '' @ ph) \<and>
      success (record_outcome r (check_page html u)) \<and>
      run_error (record_outcome r (check_page html u)) = run_error r \<and>
      last (run_logs (record_outcome r (check_page html u))) = step ''submit'' ''success''"
  proof
    assume a: "\<exists>ph \<in> set success_phrases. str_in ph (lower html)"
    have t: "check_success (check_page html u) = Some True"
      using a by (rule check_page_success)
    show "(\<exists>ph. find (\<lambda>ph. str_in ph (lower html)) success_phrases = Some ph \<and>
            check_message (check_page html u) = ''Detected success phrase: '' @ ph) \<and>
      success (record_outcome r (check_page html u)) \<and>
      run_error (record_outcome r (check_page html u)) = run_error r \<and>
      last (run_logs (record_outcome r (check_page html u))) = step ''submit'' ''success''"
      using check_page_success_message [OF a, of u] record_outcome_success [OF t, of r]
      by blast
  qed
  have c6: "(\<forall>ph \<in> set success_phrases. \<not> str_in ph (lower html)) \<and>
       (\<exists>ph \<in> set error_phrases. str_in ph (lower html)) \<longrightarrow>
      (\<exists>ph. find (\<lambda>ph. str_in ph (lower html)) error_phrases = Some ph \<and>
            check_message (check_page html u) = ''Detected error phrase: '' @ ph \<and>
            run_error (record_outcome r (check_page html u))
              = Some (''Detected error phrase: '' @ ph)) \<and>
      success (record_outcome r (check_page html u)) = success r \<and>
      last (run_logs (record_outcome r (check_page html u))) = step ''submit'' ''failed''"
  proof
    assume a: "(\<forall>ph \<in> set success_phrases. \<not> str_in ph (lower html)) \<and>
               (\<exists>ph \<in> set error_phrases. str_in ph (lower html))"
    have f: "check_success (check_page html u) = Some False"
      using a check_page_error [of html u] by blast
    obtain ph where ph: "find (\<lambda>ph. str_in ph (lower html)) error_phrases = Some ph"
        "check_message (check_page html u) = ''Detected error phrase: '' @ ph"
      using a check_page_error_message [of html u] by blast
    have ro: "success (record_outcome r (check_page html u)) = success r"
      "run_error (record_outcome r (check_page html u)) = Some (check_message (check_page html u))"
      "last (run_logs (record_outcome r (check_page html u))) = step ''submit'' ''failed''"
      using record_outcome_failure [OF f, of r] by simp_all
    have "find (\<lambda>ph. str_in ph (lower html)) error_phrases = Some ph \<and>
            check_message (check_page html u) = ''Detected error phrase: '' @ ph \<and>
            run_error (record_outcome r (check_page html u))
              = Some (''Detected error phrase: '' @ ph)"
      using ph ro(2) by simp
    then show "(\<exists>ph. find (\<lambda>ph. str_in ph (lower html)) error_phrases = Some ph \<and>
            check_message (check_page html u) = ''Detected error phrase: '' @ ph \<and>
            run_error (record_outcome r (check_page html u))
              = Some (''Detected error phrase: '' @ ph)) \<and>
      success (record_outcome r (check_page html u)) = success r \<and>
      last (run_logs (record_outcome r (check_page html u))) = step ''submit'' ''failed''"
      using ro(1) ro(3) by blast
  qed
  have c7: "start_error pg = None \<and> navigate_ok pg \<and> saved_screenshot pg ''submission'' = Inr s1 \<and>
       form_found (browser_detect_form env p pg d) \<and> \<not> captcha_present pg \<and>
       chosen_submit_selector pg (browser_detect_form env p pg d) = Some sel \<and> sel \<noteq> [] \<and>
       click_submit_ok pg sel \<and> content_after_submit pg = Inr html \<and>
       saved_screenshot pg ''result'' = Inr s2 \<and> stop_error pg = None \<and>
       (\<exists>ph \<in> set success_phrases. str_in ph (lower html)) \<longrightarrow>
      (\<exists>res. execute_submission env p pg d saas logo = Inr res \<and> success res \<and>
             run_error res = None \<and> run_screenshot_path res = Some s2 \<and>
             last (run_logs res) = step ''submit'' ''success'')"
  proof
    assume a: "start_error pg = None \<and> navigate_ok pg \<and> saved_screenshot pg ''submission'' = Inr s1 \<and>
       form_found (browser_detect_form env p pg d) \<and> \<not> captcha_present pg \<and>
       chosen_submit_selector pg (browser_detect_form env p pg d) = Some sel \<and> sel \<noteq> [] \<and>
       click_submit_ok pg sel \<and> content_after_submit pg = Inr html \<and>
       saved_screenshot pg ''result'' = Inr s2 \<and> stop_error pg = None \<and>
       (\<exists>ph \<in> set success_phrases. str_in ph (lower html))"
    then have t: "check_success (check_page html (url_after_submit pg)) = Some True"
      using check_page_success [of html "url_after_submit pg"] by blast
    show "\<exists>res. execute_submission env p pg d saas logo = Inr res \<and> success res \<and>
             run_error res = None \<and> run_screenshot_path res = Some s2 \<and>
             last (run_logs res) = step ''submit'' ''success''"
    proof (rule execute_success [of pg s1 env p d sel html s2 saas logo])
      show "start_error pg = None" "navigate_ok pg" "saved_screenshot pg ''submission'' = Inr s1"
        "form_found (browser_detect_form env p pg d)" "\<not> captcha_present pg"
        "chosen_submit_selector pg (browser_detect_form env p pg d) = Some sel" "sel \<noteq> []"
        "click_submit_ok pg sel" "content_after_submit pg = Inr html"
        "saved_screenshot pg ''result'' = Inr s2" "stop_error pg = None"
        using a by simp_all
      show "check_success (check_page html (url_after_submit pg)) = Some True" by (rule t)
    qed
  qed
  have c8: "start_error pg = None \<and> navigate_ok pg \<and> saved_screenshot pg ''submission'' = Inr s1 \<and>
       form_found (browser_detect_form env p pg d) \<and> \<not> captcha_present pg \<and>
       chosen_submit_selector pg (browser_detect_form env p pg d) = Some sel \<and> sel \<noteq> [] \<and>
       click_submit_ok pg sel \<and> content_after_submit pg = Inr html \<and>
       saved_screenshot pg ''result'' = Inr s2 \<and> stop_error pg = None \<and>
       (\<forall>ph \<in> set success_phrases. \<not> str_in ph (lower html)) \<and>
       (\<exists>ph \<in> set error_phrases. str_in ph (lower html)) \<longrightarrow>
      (\<exists>res ph. execute_submission env p pg d saas logo = Inr res \<and> \<not> success res \<and>
             find (\<lambda>ph. str_in ph (lower html)) error_phrases = Some ph \<and>
             run_error res = Some (''Detected error phrase: '' @ ph) \<and>
             run_screenshot_path res = Some s2 \<and>
             last (run_logs res) = step ''submit'' ''failed'')"
  proof
    assume a: "start_error pg = None \<and> navigate_ok pg \<and> saved_screenshot pg ''submission'' = Inr s1 \<and>
       form_found (browser_detect_form env p pg d) \<and> \<not> captcha_present pg \<and>
       chosen_submit_selector pg (browser_detect_form env p pg d) = Some sel \<and> sel \<noteq> [] \<and>
       click_submit_ok pg sel \<and> content_after_submit pg = Inr html \<and>
       saved_screenshot pg ''result'' = Inr s2 \<and> stop_error pg = None \<and>
       (\<forall>ph \<in> set success_phrases. \<not> str_in ph (lower html)) \<and>
       (\<exists>ph \<in> set error_phrases. str_in ph (lower html))"
    then have f: "check_success (check_page html (url_after_submit pg)) = Some False"
      using check_page_error [of html "url_after_submit pg"] by blast
    obtain ph where ph: "find (\<lambda>ph. str_in ph (lower html)) error_phrases = Some ph"
        "check_message (check_page html (url_after_submit pg)) = ''Detected error phrase: '' @ ph"
      using a check_page_error_message [of html "url_after_submit pg"] by blast
    have "\<exists>r. execute_submission env p pg d saas logo = Inr r \<and> \<not> success r \<and>
              run_error r = Some (check_message (check_page html (url_after_submit pg))) \<and>
              run_screenshot_path r = Some s2 \<and>
              last (run_logs r) = step ''submit'' ''failed''"
    proof (rule execute_failure [of pg s1 env p d sel html s2 saas logo])
      show "start_error pg = None" "navigate_ok pg" "saved_screenshot pg ''submission'' = Inr s1"
        "form_found (browser_detect_form env p pg d)" "\<not> captcha_present pg"
        "chosen_submit_selector pg (browser_detect_form env p pg d) = Some sel" "sel \<noteq> []"
        "click_submit_ok pg sel" "content_after_submit pg = Inr html"
        "saved_screenshot pg ''result'' = Inr s2" "stop_error pg = None"
        using a by simp_all
      show "check_success (check_page html (url_after_submit pg)) = Some False" by (rule f)
    qed
    then obtain res where res: "execute_submission env p pg d saas logo = Inr res" "\<not> success res"
        "run_error res = Some (check_message (check_page html (url_after_submit pg)))"
        "run_screenshot_path res = Some s2" "last (run_logs res) = step ''submit'' ''failed''"
      by blast
    have "run_error res = Some (''Detected error phrase: '' @ ph)"
      using res(3) ph(2) by simp
    then show "\<exists>res ph. execute_submission env p pg d saas logo = Inr res \<and> \<not> success res \<and>
             find (\<lambda>ph. str_in ph (lower html)) error_phrases = Some ph \<and>
             run_error res = Some (''Detected error phrase: '' @ ph) \<and>
             run_screenshot_path res = Some s2 \<and>
             last (run_logs res) = step ''submit'' ''failed''"
      using res(1,2,4,5) ph(1) by blast
  qed
  show ?thesis
    using c1 c2 c3 c4 c5 c6 c7 c8 by (intro conjI)
qed

theorem outcome_verification_witness:
  "check_success (check_page ''<h1>Thank you!</h1> No error.'' ''u'') = Some True
   \<and> check_success (check_page ''Invalid email'' ''u'') = Some False
   \<and> check_success (check_page ''<p>Welcome back</p>'' ''u'') = None
   \<and> (\<exists>res. execute_submission fallback_environment OpenAI (page_showing ''<p>Welcome back</p>'')
               ''https://dir.example/submit'' product_without_category None = Inr res
            \<and> success res \<and> run_error res = None \<and> last (run_logs res) = unconfirmed_log)
   \<and> check_message (check_page ''<h1>Thank you!</h1> No error.'' ''u'')
       = ''Detected success phrase: thank you''
   \<and> success (record_outcome (initial_result ''d'')
                (check_page ''<h1>Thank you!</h1> No error.'' ''u''))
   \<and> check_message (check_page ''Invalid email'' ''u'') = ''Detected error phrase: invalid''
   \<and> \<not> success (record_outcome (initial_result ''d'') (check_page ''Invalid email'' ''u''))
   \<and> run_error (record_outcome (initial_result ''d'') (check_page ''Invalid email'' ''u''))
       = Some ''Detected error phrase: invalid''
   \<and> (\<exists>res. execute_submission fallback_environment OpenAI
               (page_showing ''<h1>Thank you!</h1> No error.'')
               ''https://dir.example/submit'' product_without_category None = Inr res
            \<and> success res \<and> run_error res = None
            \<and> last (run_logs res) = step ''submit'' ''success'')
   \<and> (\<exists>res. execute_submission fallback_environment OpenAI (page_showing ''Invalid email'')
               ''https://dir.example/submit'' product_without_category None = Inr res
            \<and> \<not> success res \<and> run_error res = Some ''Detected error phrase: invalid''
            \<and> last (run_logs res) = step ''submit'' ''failed'')"
proof -
  let ?ok = "''<h1>Thank you!</h1> No error.''"
  let ?bad = "''Invalid email''"
  let ?amb = "''<p>Welcome back</p>''"
  let ?d = "''https://dir.example/submit''"
  let ?r = "initial_result ''d''"
  note at_ok = outcome_verification
      [of ?ok "''u''" ?r "page_showing ?ok" "''screenshots/submission.png''"
          fallback_environment OpenAI ?d "''button[type=submit]''"
          "''screenshots/result.png''" product_without_category None]
  note at_bad = outcome_verification
      [of ?bad "''u''" ?r "page_showing ?bad" "''screenshots/submission.png''"
          fallback_environment OpenAI ?d "''button[type=submit]''"
          "''screenshots/result.png''" product_without_category None]
  note at_amb = outcome_verification
      [of ?amb "''u''" ?r "page_showing ?amb" "''screenshots/submission.png''"
          fallback_environment OpenAI ?d "''button[type=submit]''"
          "''screenshots/result.png''" product_without_category None]
  have s1: "\<exists>ph \<in> set success_phrases. str_in ph (lower ?ok)"
    by (simp add: success_phrases_def lower_def)
  have f1: "find (\<lambda>ph. str_in ph (lower ?ok)) success_phrases = Some ''thank you''"
    by (simp add: success_phrases_def lower_def)
  have s2: "\<forall>ph \<in> set success_phrases. \<not> str_in ph (lower ?bad)"
    by (simp add: success_phrases_def lower_def)
  have e2: "\<exists>ph \<in> set error_phrases. str_in ph (lower ?bad)"
    by (simp add: error_phrases_def lower_def)
  have f2: "find (\<lambda>ph. str_in ph (lower ?bad)) error_phrases = Some ''invalid''"
    by (simp add: error_phrases_def lower_def)
  have s3: "\<forall>ph \<in> set success_phrases. \<not> str_in ph (lower ?amb)"
    by (simp add: success_phrases_def lower_def)
  have e3: "\<forall>ph \<in> set error_phrases. \<not> str_in ph (lower ?amb)"
    by (simp add: error_phrases_def lower_def)
  have se2: "(\<forall>ph \<in> set success_phrases. \<not> str_in ph (lower ?bad)) \<and>
             (\<exists>ph \<in> set error_phrases. str_in ph (lower ?bad))"
    using s2 e2 by (rule conjI)
  have se3: "(\<forall>ph \<in> set success_phrases. \<not> str_in ph (lower ?amb)) \<and>
             (\<forall>ph \<in> set error_phrases. \<not> str_in ph (lower ?amb))"
    using s3 e3 by (rule conjI)
  have init: "\<not> success ?r"
    by (simp add: initial_result_def)
  have a: "check_success (check_page ?ok ''u'') = Some True"
    using at_ok [THEN conjunct1] s1 by (rule mp)
  have b: "check_success (check_page ?bad ''u'') = Some False"
    using at_bad [THEN conjunct2, THEN conjunct1] se2 by (rule mp)
  have amb: "check_success (check_page ?amb ''u'') = None \<and>
      success (record_outcome ?r (check_page ?amb ''u'')) \<and>
      run_error (record_outcome ?r (check_page ?amb ''u'')) = run_error ?r \<and>
      last (run_logs (record_outcome ?r (check_page ?amb ''u''))) = unconfirmed_log"
    using at_amb [THEN conjunct2, THEN conjunct2, THEN conjunct1] se3 by (rule mp)
  have c: "check_success (check_page ?amb ''u'') = None"
    using amb by (rule conjunct1)
  have ok: "(\<exists>ph. find (\<lambda>ph. str_in ph (lower ?ok)) success_phrases = Some ph \<and>
            check_message (check_page ?ok ''u'') = ''Detected success phrase: '' @ ph) \<and>
      success (record_outcome ?r (check_page ?ok ''u'')) \<and>
      run_error (record_outcome ?r (check_page ?ok ''u'')) = run_error ?r \<and>
      last (run_logs (record_outcome ?r (check_page ?ok ''u''))) = step ''submit'' ''success''"
    using at_ok [THEN conjunct2, THEN conjunct2, THEN conjunct2, THEN conjunct2, THEN conjunct1] s1 by (rule mp)
  obtain ph1 where ph1: "find (\<lambda>ph. str_in ph (lower ?ok)) success_phrases = Some ph1"
      "check_message (check_page ?ok ''u'') = ''Detected success phrase: '' @ ph1"
    using ok by blast
  have "ph1 = ''thank you''"
    using ph1(1) unfolding f1 by simp
  then have m1: "check_message (check_page ?ok ''u'') = ''Detected success phrase: thank you''"
    using ph1(2) by simp
  have r1: "success (record_outcome ?r (check_page ?ok ''u''))"
    using ok by blast
  have bad: "(\<exists>ph. find (\<lambda>ph. str_in ph (lower ?bad)) error_phrases = Some ph \<and>
            check_message (check_page ?bad ''u'') = ''Detected error phrase: '' @ ph \<and>
            run_error (record_outcome ?r (check_page ?bad ''u''))
              = Some (''Detected error phrase: '' @ ph)) \<and>
      success (record_outcome ?r (check_page ?bad ''u'')) = success ?r \<and>
      last (run_logs (record_outcome ?r (check_page ?bad ''u''))) = step ''submit'' ''failed''"
    using at_bad [THEN conjunct2, THEN conjunct2, THEN conjunct2, THEN conjunct2, THEN conjunct2, THEN conjunct1] se2 by (rule mp)
  obtain ph2 where ph2: "find (\<lambda>ph. str_in ph (lower ?bad)) error_phrases = Some ph2"
      "check_message (check_page ?bad ''u'') = ''Detected error phrase: '' @ ph2"
      "run_error (record_outcome ?r (check_page ?bad ''u''))
         = Some (''Detected error phrase: '' @ ph2)"
    using bad by blast
  have p2: "ph2 = ''invalid''"
    using ph2(1) unfolding f2 by simp
  have m2: "check_message (check_page ?bad ''u'') = ''Detected error phrase: invalid''"
    using ph2(2) p2 by simp
  have r2e: "run_error (record_outcome ?r (check_page ?bad ''u''))
                = Some ''Detected error phrase: invalid''"
    using ph2(3) p2 by simp
  have "success (record_outcome ?r (check_page ?bad ''u'')) = success ?r"
    using bad by blast
  then have r2: "\<not> success (record_outcome ?r (check_page ?bad ''u''))"
    using init by simp
  have pa: "detect_form fallback_environment OpenAI ''png'' ''<form>'' ?d = Inr (detection_failure ?d)"
    by (rule detect_form_of_exception [of _ _ _ _ TransportError])
       (simp add: analyze_form_def fallback_environment_def example_environment_def)
  have form: "browser_detect_form fallback_environment OpenAI (page_showing h) ?d =
     \<lparr>url = ?d, form_found = True, form_selector = None,
      form_fields = detect_fields_from_html email_form,
      submit_button_selector = None, result_screenshot_path = None, confidence = 1 / 2\<rparr>" for h
    using browser_fallback(1)
            [of "page_showing h" "''png''" "''<form>''" fallback_environment OpenAI ?d
                "detection_failure ?d"]
          pa email_form_fields
    by (simp add: page_showing_def detection_failure_def fallback_environment_def)
  have sel: "chosen_submit_selector (page_showing h)
               (browser_detect_form fallback_environment OpenAI (page_showing h) ?d)
               = Some ''button[type=submit]''" for h
    unfolding form by (simp add: chosen_submit_selector_def truthy_str_def page_showing_def)
  have steps: "start_error (page_showing h) = None" "navigate_ok (page_showing h)"
      "saved_screenshot (page_showing h) ''submission'' = Inr ''screenshots/submission.png''"
      "\<not> captcha_present (page_showing h)"
      "click_submit_ok (page_showing h) ''button[type=submit]''"
      "content_after_submit (page_showing h) = Inr h"
      "saved_screenshot (page_showing h) ''result'' = Inr ''screenshots/result.png''"
      "stop_error (page_showing h) = None" for h
    by (simp_all add: page_showing_def)
  have found: "form_found (browser_detect_form fallback_environment OpenAI (page_showing h) ?d)" for h
    unfolding form by simp
  have ne: "''button[type=submit]'' \<noteq> []" by simp
  have hyp_amb: "start_error (page_showing ?amb) = None \<and> navigate_ok (page_showing ?amb) \<and>
       saved_screenshot (page_showing ?amb) ''submission'' = Inr ''screenshots/submission.png'' \<and>
       form_found (browser_detect_form fallback_environment OpenAI (page_showing ?amb) ?d) \<and>
       \<not> captcha_present (page_showing ?amb) \<and>
       chosen_submit_selector (page_showing ?amb) (browser_detect_form fallback_environment OpenAI (page_showing ?amb) ?d)
         = Some ''button[type=submit]'' \<and>
       ''button[type=submit]'' \<noteq> [] \<and>
       click_submit_ok (page_showing ?amb) ''button[type=submit]'' \<and> content_after_submit (page_showing ?amb) = Inr ?amb \<and>
       saved_screenshot (page_showing ?amb) ''result'' = Inr ''screenshots/result.png'' \<and> stop_error (page_showing ?amb) = None \<and>
       (\<forall>ph \<in> set success_phrases. \<not> str_in ph (lower ?amb)) \<and>
       (\<forall>ph \<in> set error_phrases. \<not> str_in ph (lower ?amb))"
    using steps [of ?amb] found [of ?amb] sel [of ?amb] ne s3 e3 by (intro conjI)
  have hyp_ok: "start_error (page_showing ?ok) = None \<and> navigate_ok (page_showing ?ok) \<and>
       saved_screenshot (page_showing ?ok) ''submission'' = Inr ''screenshots/submission.png'' \<and>
       form_found (browser_detect_form fallback_environment OpenAI (page_showing ?ok) ?d) \<and>
       \<not> captcha_present (page_showing ?ok) \<and>
       chosen_submit_selector (page_showing ?ok) (browser_detect_form fallback_environment OpenAI (page_showing ?ok) ?d)
         = Some ''button[type=submit]'' \<and>
       ''button[type=submit]'' \<noteq> [] \<and>
       click_submit_ok (page_showing ?ok) ''button[type=submit]'' \<and> content_after_submit (page_showing ?ok) = Inr ?ok \<and>
       saved_screenshot (page_showing ?ok) ''result'' = Inr ''screenshots/result.png'' \<and> stop_error (page_showing ?ok) = None \<and>
       (\<exists>ph \<in> set success_phrases. str_in ph (lower ?ok))"
    using steps [of ?ok] found [of ?ok] sel [of ?ok] ne s1 by (intro conjI)
  have hyp_bad: "start_error (page_showing ?bad) = None \<and> navigate_ok (page_showing ?bad) \<and>
       saved_screenshot (page_showing ?bad) ''submission'' = Inr ''screenshots/submission.png'' \<and>
       form_found (browser_detect_form fallback_environment OpenAI (page_showing ?bad) ?d) \<and>
       \<not> captcha_present (page_showing ?bad) \<and>
       chosen_submit_selector (page_showing ?bad) (browser_detect_form fallback_environment OpenAI (page_showing ?bad) ?d)
         = Some ''button[type=submit]'' \<and>
       ''button[type=submit]'' \<noteq> [] \<and>
       click_submit_ok (page_showing ?bad) ''button[type=submit]'' \<and> content_after_submit (page_showing ?bad) = Inr ?bad \<and>
       saved_screenshot (page_showing ?bad) ''result'' = Inr ''screenshots/result.png'' \<and> stop_error (page_showing ?bad) = None \<and>
       (\<forall>ph \<in> set success_phrases. \<not> str_in ph (lower ?bad)) \<and>
       (\<exists>ph \<in> set error_phrases. str_in ph (lower ?bad))"
    using steps [of ?bad] found [of ?bad] sel [of ?bad] ne s2 e2 by (intro conjI)
  have d: "\<exists>res. execute_submission fallback_environment OpenAI (page_showing ?amb) ?d
                   product_without_category None = Inr res
            \<and> success res \<and> run_error res = None \<and> last (run_logs res) = unconfirmed_log"
    using at_amb [THEN conjunct2, THEN conjunct2, THEN conjunct2, THEN conjunct1] hyp_amb by (rule mp)
  have "\<exists>res. execute_submission fallback_environment OpenAI (page_showing ?ok) ?d
                   product_without_category None = Inr res
            \<and> success res \<and> run_error res = None
            \<and> run_screenshot_path res = Some ''screenshots/result.png''
            \<and> last (run_logs res) = step ''submit'' ''success''"
    using at_ok [THEN conjunct2, THEN conjunct2, THEN conjunct2, THEN conjunct2, THEN conjunct2, THEN conjunct2, THEN conjunct1] hyp_ok by (rule mp)
  then have e: "\<exists>res. execute_submission fallback_environment OpenAI (page_showing ?ok) ?d
                   product_without_category None = Inr res
            \<and> success res \<and> run_error res = None
            \<and> last (run_logs res) = step ''submit'' ''success''"
    by blast
  have "\<exists>res ph. execute_submission fallback_environment OpenAI (page_showing ?bad) ?d
                   product_without_category None = Inr res \<and> \<not> success res \<and>
             find (\<lambda>ph. str_in ph (lower ?bad)) error_phrases = Some ph \<and>
             run_error res = Some (''Detected error phrase: '' @ ph) \<and>
             run_screenshot_path res = Some ''screenshots/result.png'' \<and>
             last (run_logs res) = step ''submit'' ''failed''"
    using at_bad [THEN conjunct2, THEN conjunct2, THEN conjunct2, THEN conjunct2, THEN conjunct2, THEN conjunct2, THEN conjunct2] hyp_bad by (rule mp)
  then obtain res ph where res:
      "execute_submission fallback_environment OpenAI (page_showing ?bad) ?d
         product_without_category None = Inr res" "\<not> success res"
      "find (\<lambda>ph. str_in ph (lower ?bad)) error_phrases = Some ph"
      "run_error res = Some (''Detected error phrase: '' @ ph)"
      "last (run_logs res) = step ''submit'' ''failed''"
    by blast
  have "ph = ''invalid''"
    using res(3) unfolding f2 by simp
  then have "run_error res = Some ''Detected error phrase: invalid''"
    using res(4) by simp
  then have f: "\<exists>res. execute_submission fallback_environment OpenAI (page_showing ?bad) ?d
                   product_without_category None = Inr res
            \<and> \<not> success res \<and> run_error res = Some ''Detected error phrase: invalid''
            \<and> last (run_logs res) = step ''submit'' ''failed''"
    using res(1,2,5) by blast
  show ?thesis
    using a b c d m1 r1 m2 r2 r2e e f by (intro conjI)
qed

end
